theory Spec2Isabelle
  imports Complex_Main "HOL-Library.Multiset"
begin

section \<open>Python values\<close>

text \<open>
  The pipeline hands \<open>write_run\<close> dictionaries decoded from JSON. The fields that the
  writer coerces with \<open>int\<close>, \<open>float\<close> or \<open>or ""\<close> are kept as Python values, so that
  every coercion failure is a branch of the model. Containers (lists, dictionaries) as
  field values are outside the value type.

  A float is the rational it denotes, or one of the three special values; the binary
  rounding of doubles is not modelled. Strings are lists of ASCII characters: whitespace,
  case and digits are the ASCII ones.
\<close>

datatype pyfloat = Finite rat | PosInf | NegInf | NaN

datatype pyval = PyNone | PyBool bool | PyInt int | PyFloat pyfloat | PyStr string

datatype py_error =
    KeyError | TypeError | ValueError | OverflowError | AttributeError
  | RuntimeError | IntegrityError | DatabaseError

subsection \<open>Characters and strings\<close>

definition is_space :: "char \<Rightarrow> bool" where
  \<comment> \<open>\<open>str.isspace\<close> on ASCII: TAB, LF, VT, FF, CR, FS, GS, RS, US and the space.\<close>
  "is_space c \<longleftrightarrow>
     c \<in> set [CHR 0x09, CHR 0x0A, CHR 0x0B, CHR 0x0C, CHR 0x0D,
               CHR 0x1C, CHR 0x1D, CHR 0x1E, CHR 0x1F, CHR 0x20]"

definition is_upper :: "char \<Rightarrow> bool" where
  "is_upper c \<longleftrightarrow> c \<in> set ''ABCDEFGHIJKLMNOPQRSTUVWXYZ''"

definition is_lower :: "char \<Rightarrow> bool" where
  "is_lower c \<longleftrightarrow> c \<in> set ''abcdefghijklmnopqrstuvwxyz''"

definition lower_char :: "char \<Rightarrow> char" where
  "lower_char c =
     (case map_of (zip ''ABCDEFGHIJKLMNOPQRSTUVWXYZ'' ''abcdefghijklmnopqrstuvwxyz'') c of
        Some l \<Rightarrow> l | None \<Rightarrow> c)"

definition upper_char :: "char \<Rightarrow> char" where
  "upper_char c =
     (case map_of (zip ''abcdefghijklmnopqrstuvwxyz'' ''ABCDEFGHIJKLMNOPQRSTUVWXYZ'') c of
        Some u \<Rightarrow> u | None \<Rightarrow> c)"

definition py_lower :: "string \<Rightarrow> string" where
  "py_lower s = map lower_char s"

definition py_strip :: "string \<Rightarrow> string" where
  \<comment> \<open>\<open>s.strip()\<close>\<close>
  "py_strip s = rev (dropWhile is_space (rev (dropWhile is_space s)))"

fun title_from :: "bool \<Rightarrow> string \<Rightarrow> string" where
  \<comment> \<open>\<open>s.title()\<close>; the flag says whether the previous character was a cased letter.\<close>
  "title_from prev [] = []"
| "title_from prev (c # cs) =
     (if is_upper c \<or> is_lower c
      then (if prev then lower_char c else upper_char c) # title_from True cs
      else c # title_from False cs)"

definition py_title :: "string \<Rightarrow> string" where
  "py_title s = title_from False s"

fun collapse_ws :: "bool \<Rightarrow> string \<Rightarrow> string" where
  \<comment> \<open>\<open>re.sub(r"\s+", " ", s)\<close>; the flag says whether a whitespace run is being read.\<close>
  "collapse_ws in_run [] = []"
| "collapse_ws in_run (c # cs) =
     (if is_space c
      then (if in_run then collapse_ws True cs else CHR '' '' # collapse_ws True cs)
      else c # collapse_ws False cs)"

definition is_punct :: "char \<Rightarrow> bool" where
  "is_punct c \<longleftrightarrow> c \<in> set ''.,;:!?''"

definition strip_trailing_punct :: "string \<Rightarrow> string" where
  \<comment> \<open>\<open>re.sub(r"[.,;:!?]+$", "", s)\<close> on a string without line breaks\<close>
  "strip_trailing_punct s = rev (dropWhile is_punct (rev s))"

subsection \<open>src/pipeline/ingredients.py\<close>

definition canonicalize_ingredient :: "pyval \<Rightarrow> string" where
  "canonicalize_ingredient name =
     (case name of
        PyStr n \<Rightarrow>
          if n = [] then []
          else py_strip (strip_trailing_punct (collapse_ws False (py_lower (py_strip n))))
      | _ \<Rightarrow> [])"

definition display_name_for_ingredient :: "pyval \<Rightarrow> string" where
  "display_name_for_ingredient name =
     (case name of
        PyStr n \<Rightarrow> if n = [] then [] else py_title (py_strip n)
      | _ \<Rightarrow> [])"


subsection \<open>Truthiness and the coercions \<open>int\<close> and \<open>float\<close>\<close>

fun py_truthy :: "pyval \<Rightarrow> bool" where
  "py_truthy PyNone = False"
| "py_truthy (PyBool b) = b"
| "py_truthy (PyInt i) = (i \<noteq> 0)"
| "py_truthy (PyFloat f) = (f \<noteq> Finite 0)"
| "py_truthy (PyStr s) = (s \<noteq> [])"

definition is_digit :: "char \<Rightarrow> bool" where
  "is_digit c \<longleftrightarrow> c \<in> set ''0123456789''"

definition digit_val :: "char \<Rightarrow> nat" where
  "digit_val c = length (takeWhile (\<lambda>d. d \<noteq> c) ''0123456789'')"

fun digitpart :: "string \<Rightarrow> bool" where
  \<comment> \<open>digits, with single underscores allowed between two digits\<close>
  "digitpart [] = False"
| "digitpart [c] = is_digit c"
| "digitpart (c # d # cs) =
     (is_digit c \<and> (if d = CHR ''_'' then digitpart cs else digitpart (d # cs)))"

definition digits_val :: "string \<Rightarrow> nat" where
  "digits_val s = foldl (\<lambda>acc c. 10 * acc + digit_val c) 0 (filter is_digit s)"

definition split_sign :: "string \<Rightarrow> bool \<times> string" where
  "split_sign s =
     (case s of
        [] \<Rightarrow> (False, [])
      | c # cs \<Rightarrow> if c = CHR ''-'' then (True, cs) else if c = CHR ''+'' then (False, cs) else (False, s))"

definition parse_int :: "string \<Rightarrow> py_error + int" where
  "parse_int s =
     (let (neg, r) = split_sign (py_strip s)
      in if digitpart r then Inr (if neg then - int (digits_val r) else int (digits_val r))
         else Inl ValueError)"

definition split_at :: "(char \<Rightarrow> bool) \<Rightarrow> string \<Rightarrow> string \<times> string option" where
  \<comment> \<open>the text before the first separator, and the text after it when there is one\<close>
  "split_at P s =
     (case dropWhile (\<lambda>c. \<not> P c) s of
        [] \<Rightarrow> (s, None)
      | _ # r \<Rightarrow> (takeWhile (\<lambda>c. \<not> P c) s, Some r))"

definition double_limit :: rat where
  \<comment> \<open>from this magnitude on, a value rounds to an infinite double\<close>
  "double_limit = 2 ^ 1024 - 2 ^ 970"

definition float_of_rat :: "rat \<Rightarrow> pyfloat" where
  "float_of_rat q =
     (if double_limit \<le> q then PosInf else if q \<le> - double_limit then NegInf else Finite q)"

definition parse_float :: "string \<Rightarrow> py_error + pyfloat" where
  "parse_float s =
     (let (neg, r) = split_sign (py_strip s); l = py_lower r
      in if l = ''inf'' \<or> l = ''infinity'' then Inr (if neg then NegInf else PosInf)
         else if l = ''nan'' then Inr NaN
         else
           let (m, ex) = split_at (\<lambda>c. c = CHR ''e'' \<or> c = CHR ''E'') r;
               (ip, fp) = split_at (\<lambda>c. c = CHR ''.'') m;
               mantissa_ok =
                 (case fp of
                    None \<Rightarrow> digitpart ip
                  | Some f \<Rightarrow> (ip = [] \<and> digitpart f) \<or> (digitpart ip \<and> (f = [] \<or> digitpart f)));
               exponent =
                 (case ex of
                    None \<Rightarrow> Some 0
                  | Some x \<Rightarrow>
                      let (eneg, er) = split_sign x
                      in if digitpart er
                         then Some (if eneg then - int (digits_val er) else int (digits_val er))
                         else None)
           in case exponent of
                None \<Rightarrow> Inl ValueError
              | Some x \<Rightarrow>
                  if \<not> mantissa_ok then Inl ValueError
                  else
                    let f = (case fp of None \<Rightarrow> [] | Some f \<Rightarrow> filter is_digit f);
                        v = (of_nat (digits_val ip) + of_nat (digits_val f) / 10 ^ length f)
                              * (if 0 \<le> x then 10 ^ nat x else 1 / 10 ^ nat (- x))
                    in Inr (float_of_rat (if neg then - v else v)))"

fun py_int :: "pyval \<Rightarrow> py_error + int" where
  "py_int PyNone = Inl TypeError"
| "py_int (PyBool b) = Inr (if b then 1 else 0)"
| "py_int (PyInt i) = Inr i"
| "py_int (PyFloat (Finite q)) = Inr (if 0 \<le> q then \<lfloor>q\<rfloor> else \<lceil>q\<rceil>)"
| "py_int (PyFloat NaN) = Inl ValueError"
| "py_int (PyFloat _) = Inl OverflowError"
| "py_int (PyStr s) = parse_int s"

fun py_float :: "pyval \<Rightarrow> py_error + pyfloat" where
  "py_float PyNone = Inl TypeError"
| "py_float (PyBool b) = Inr (Finite (if b then 1 else 0))"
| "py_float (PyInt i) =
     (if double_limit \<le> \<bar>of_int i\<bar> then Inl OverflowError else Inr (Finite (of_int i)))"
| "py_float (PyFloat f) = Inr f"
| "py_float (PyStr s) = parse_float s"

subsection \<open>Comparison, \<open>min\<close>, \<open>max\<close> and \<open>round\<close> on floats\<close>

fun float_lt :: "pyfloat \<Rightarrow> pyfloat \<Rightarrow> bool" where
  "float_lt NaN _ = False"
| "float_lt _ NaN = False"
| "float_lt _ NegInf = False"
| "float_lt NegInf _ = True"
| "float_lt PosInf _ = False"
| "float_lt _ PosInf = True"
| "float_lt (Finite a) (Finite b) = (a < b)"

definition py_min :: "pyfloat \<Rightarrow> pyfloat \<Rightarrow> pyfloat" where
  \<comment> \<open>\<open>min(a, b)\<close> keeps \<open>a\<close> unless \<open>b < a\<close>\<close>
  "py_min a b = (if float_lt b a then b else a)"

definition py_max :: "pyfloat \<Rightarrow> pyfloat \<Rightarrow> pyfloat" where
  \<comment> \<open>\<open>max(a, b)\<close> keeps \<open>a\<close> unless \<open>b > a\<close>\<close>
  "py_max a b = (if float_lt a b then b else a)"

definition clamp01 :: "pyfloat \<Rightarrow> pyfloat" where
  \<comment> \<open>\<open>max(0.0, min(1.0, conf))\<close>\<close>
  "clamp01 conf = py_max (Finite 0) (py_min (Finite 1) conf)"

definition round_half_even :: "rat \<Rightarrow> int" where
  "round_half_even x =
     (let f = \<lfloor>x\<rfloor>; d = x - of_int f
      in if d < 1 / 2 then f else if 1 / 2 < d then f + 1 else if even f then f else f + 1)"

fun py_round3 :: "pyfloat \<Rightarrow> pyfloat" where
  \<comment> \<open>\<open>round(conf, 3)\<close>\<close>
  "py_round3 (Finite q) = Finite (of_int (round_half_even (q * 1000)) / 1000)"
| "py_round3 f = f"


section \<open>The store\<close>

text \<open>
  Modelled from the spec: the table declarations are not part of the Python sources. The
  columns are the ones the statements of \<open>write_run\<close> name; the keys are those of the
  data model (section 3 of the specification): \<open>restaurant_id\<close>, \<open>item_id\<close>,
  \<open>canonical_name\<close> (unique), \<open>(run_id, item_id, ingredient_id)\<close> for observations and
  \<open>(item_id, ingredient_id)\<close> for the current snapshot. Generated identifiers are drawn
  above every identifier in the table. Timestamps are natural numbers.
\<close>

record run_row =
  run_id :: nat
  run_model_name :: "string option"
  run_prompt_version :: "string option"
  run_pipeline_version :: "string option"
  run_created_at :: nat

record restaurant_row =
  restaurant_name :: "string option"
  restaurant_updated_at :: nat

record menu_item_row =
  item_restaurant_id :: int
  item_name :: string
  item_reasoning :: "string option"
  item_updated_at :: nat

record ingredient_row =
  ingredient_id :: nat
  canonical_name :: string
  display_name :: string

record observation_row =
  obs_confidence :: pyfloat
  obs_created_at :: nat

record link_row =
  link_item_id :: int
  link_ingredient_id :: nat
  link_confidence :: pyfloat

record db =
  extraction_runs :: "run_row list"
  restaurants :: "int \<rightharpoonup> restaurant_row"
  menu_items :: "int \<rightharpoonup> menu_item_row"
  ingredients :: "ingredient_row list"
  observations :: "(nat \<times> int \<times> nat) \<rightharpoonup> observation_row"
  menu_item_ingredients :: "link_row list"

definition fresh_id :: "nat list \<Rightarrow> nat" where
  \<comment> \<open>AUTO_INCREMENT: a positive identifier above all the ones in use\<close>
  "fresh_id ids = Suc (fold max ids 0)"

subsection \<open>The statements of \<open>write_run\<close>\<close>

definition sql_insert_run ::
  "string option \<Rightarrow> string option \<Rightarrow> string option \<Rightarrow> nat \<Rightarrow> db \<Rightarrow> py_error + db" where
  "sql_insert_run model pv plv t d =
     Inr (d\<lparr>extraction_runs := extraction_runs d @
            [\<lparr>run_id = fresh_id (map run_id (extraction_runs d)), run_model_name = model,
              run_prompt_version = pv, run_pipeline_version = plv, run_created_at = t\<rparr>]\<rparr>)"

definition lastrowid :: "db \<Rightarrow> nat" where
  \<comment> \<open>the identifier generated by the insert into \<open>extraction_runs\<close>\<close>
  "lastrowid d = (case extraction_runs d of [] \<Rightarrow> 0 | _ \<Rightarrow> run_id (last (extraction_runs d)))"

definition sql_upsert_restaurant :: "int \<Rightarrow> nat \<Rightarrow> db \<Rightarrow> py_error + db" where
  \<comment> \<open>\<open>INSERT ... VALUES (id, NULL) ON DUPLICATE KEY UPDATE updated_at = CURRENT_TIMESTAMP\<close>\<close>
  "sql_upsert_restaurant rid t d =
     Inr (d\<lparr>restaurants := (restaurants d)(rid \<mapsto>
            (case restaurants d rid of
               None \<Rightarrow> \<lparr>restaurant_name = None, restaurant_updated_at = t\<rparr>
             | Some r \<Rightarrow> r\<lparr>restaurant_updated_at := t\<rparr>))\<rparr>)"

definition sql_upsert_menu_item ::
  "int \<Rightarrow> int \<Rightarrow> string \<Rightarrow> string option \<Rightarrow> nat \<Rightarrow> db \<Rightarrow> py_error + db" where
  "sql_upsert_menu_item iid rid name reasoning t d =
     Inr (d\<lparr>menu_items := (menu_items d)(iid \<mapsto>
            \<lparr>item_restaurant_id = rid, item_name = name, item_reasoning = reasoning,
             item_updated_at = t\<rparr>)\<rparr>)"

definition sql_upsert_ingredient :: "string \<Rightarrow> string \<Rightarrow> db \<Rightarrow> py_error + db" where
  \<comment> \<open>\<open>INSERT ... ON DUPLICATE KEY UPDATE display_name = VALUES(display_name)\<close>\<close>
  "sql_upsert_ingredient canonical display d =
     Inr (if \<exists>r \<in> set (ingredients d). canonical_name r = canonical
          then d\<lparr>ingredients :=
                 map (\<lambda>r. if canonical_name r = canonical then r\<lparr>display_name := display\<rparr> else r)
                   (ingredients d)\<rparr>
          else d\<lparr>ingredients := ingredients d @
                 [\<lparr>ingredient_id = fresh_id (map ingredient_id (ingredients d)),
                   canonical_name = canonical, display_name = display\<rparr>]\<rparr>)"

definition sql_select_ingredient_id :: "db \<Rightarrow> string \<Rightarrow> nat option" where
  \<comment> \<open>\<open>SELECT ingredient_id FROM ingredients WHERE canonical_name = %s\<close>, then \<open>fetchone\<close>\<close>
  "sql_select_ingredient_id d canonical =
     map_option ingredient_id (find (\<lambda>r. canonical_name r = canonical) (ingredients d))"

definition sql_upsert_observation ::
  "nat \<Rightarrow> int \<Rightarrow> nat \<Rightarrow> pyfloat \<Rightarrow> nat \<Rightarrow> db \<Rightarrow> py_error + db" where
  \<comment> \<open>\<open>INSERT ... ON DUPLICATE KEY UPDATE confidence = VALUES(confidence), created_at = \<dots>\<close>\<close>
  "sql_upsert_observation run iid gid conf t d =
     Inr (d\<lparr>observations := (observations d)((run, iid, gid) \<mapsto>
            \<lparr>obs_confidence = conf, obs_created_at = t\<rparr>)\<rparr>)"

definition sql_delete_links :: "int \<Rightarrow> db \<Rightarrow> py_error + db" where
  \<comment> \<open>\<open>DELETE FROM menu_item_ingredients WHERE item_id = %s\<close>\<close>
  "sql_delete_links iid d =
     Inr (d\<lparr>menu_item_ingredients := filter (\<lambda>l. link_item_id l \<noteq> iid) (menu_item_ingredients d)\<rparr>)"

definition sql_insert_link :: "int \<Rightarrow> nat \<Rightarrow> pyfloat \<Rightarrow> db \<Rightarrow> py_error + db" where
  \<comment> \<open>Modelled from the spec: the declaration of \<open>menu_item_ingredients\<close> is not in the
    sources; its key is \<open>(item_id, ingredient_id)\<close>. The statement is a plain \<open>INSERT\<close>,
    so a second row with the same key is refused.\<close>
  "sql_insert_link iid gid conf d =
     (if \<exists>l \<in> set (menu_item_ingredients d). link_item_id l = iid \<and> link_ingredient_id l = gid
      then Inl IntegrityError
      else Inr (d\<lparr>menu_item_ingredients := menu_item_ingredients d @
             [\<lparr>link_item_id = iid, link_ingredient_id = gid, link_confidence = conf\<rparr>]\<rparr>))"

section \<open>src/pipeline/mysql_writer.py\<close>

subsection \<open>The input records and the environment\<close>

record ingredient_entry =
  ing_name :: "pyval option"
  ing_confidence :: "pyval option"

record extraction_result =
  res_item_id :: "pyval option"
  res_restaurant_id :: "pyval option"
  res_item_name :: "string option"
  res_reasoning :: "string option"
  res_ingredients :: "ingredient_entry list"

record pipeline_config =
  cfg_prompt_version :: "string option"
  cfg_pipeline_version :: "string option"

text \<open>
  What \<open>write_run\<close> finds around it: the \<open>config\<close> module (\<open>None\<close> when the import
  fails), the value of \<open>CURRENT_TIMESTAMP\<close>, and the number of the statement at which the
  store fails, if it does (connection loss, a constraint of the store, a conflict).
\<close>

record env =
  config_module :: "pipeline_config option"
  current_timestamp :: nat
  fail_at :: "nat option"

record cursor =
  cur_db :: db
  cur_stmts :: nat

definition execute :: "env \<Rightarrow> (db \<Rightarrow> py_error + db) \<Rightarrow> cursor \<Rightarrow> py_error + cursor" where
  \<comment> \<open>\<open>cursor.execute\<close>: the statement runs on the connection's view of the store\<close>
  "execute e stmt c =
     (if fail_at e = Some (cur_stmts c) then Inl DatabaseError
      else case stmt (cur_db c) of
             Inl err \<Rightarrow> Inl err
           | Inr d \<Rightarrow> Inr \<lparr>cur_db = d, cur_stmts = Suc (cur_stmts c)\<rparr>)"

fun for_each :: "('a \<Rightarrow> 's \<Rightarrow> 'e + 's) \<Rightarrow> 'a list \<Rightarrow> 's \<Rightarrow> 'e + 's" where
  \<comment> \<open>a \<open>for\<close> loop whose body may raise\<close>
  "for_each body [] s = Inr s"
| "for_each body (x # xs) s =
     (case body x s of Inl err \<Rightarrow> Inl err | Inr s' \<Rightarrow> for_each body xs s')"

subsection \<open>\<open>_get_pipeline_config\<close> and \<open>write_run\<close>\<close>

definition get_pipeline_config :: "env \<Rightarrow> string option \<times> string option" where
  "get_pipeline_config e =
     (case config_module e of
        None \<Rightarrow> (None, None)
      | Some cfg \<Rightarrow> (cfg_prompt_version cfg, cfg_pipeline_version cfg))"

definition stripped_name :: "ingredient_entry \<Rightarrow> py_error + string" where
  \<comment> \<open>\<open>(ing.get("name") or "").strip()\<close>\<close>
  "stripped_name ing =
     (case ing_name ing of
        None \<Rightarrow> Inr []
      | Some v \<Rightarrow>
          if \<not> py_truthy v then Inr []
          else (case v of PyStr s \<Rightarrow> Inr (py_strip s) | _ \<Rightarrow> Inl AttributeError))"

definition entry_confidence :: "ingredient_entry \<Rightarrow> py_error + pyfloat" where
  \<comment> \<open>\<open>float(ing.get("confidence", 0))\<close>\<close>
  "entry_confidence ing =
     py_float (case ing_confidence ing of None \<Rightarrow> PyInt 0 | Some v \<Rightarrow> v)"

type_synonym seen = "(nat \<times> pyfloat) list"

definition write_ingredient ::
  "env \<Rightarrow> nat \<Rightarrow> int \<Rightarrow> ingredient_entry \<Rightarrow> cursor \<times> seen \<Rightarrow> py_error + cursor \<times> seen" where
  \<comment> \<open>the body of the loop over \<open>ingredient_rows\<close>\<close>
  "write_ingredient e run iid ing st =
     (case stripped_name ing of
        Inl err \<Rightarrow> Inl err
      | Inr name \<Rightarrow>
          if name = [] then Inr st
          else
            case entry_confidence ing of
              Inl err \<Rightarrow> Inl err
            | Inr f \<Rightarrow>
                let conf = clamp01 f;
                    canonical = canonicalize_ingredient (PyStr name);
                    display = display_name_for_ingredient (PyStr name)
                in if canonical = [] then Inr st
                   else
                     case execute e (sql_upsert_ingredient canonical display) (fst st) of
                       Inl err \<Rightarrow> Inl err
                     | Inr c1 \<Rightarrow>
                     case execute e Inr c1 of
                       Inl err \<Rightarrow> Inl err
                     | Inr c2 \<Rightarrow>
                     case sql_select_ingredient_id (cur_db c2) canonical of
                       None \<Rightarrow> Inl RuntimeError
                     | Some gid \<Rightarrow>
                     case execute e
                            (sql_upsert_observation run iid gid (py_round3 conf) (current_timestamp e))
                            c2 of
                       Inl err \<Rightarrow> Inl err
                     | Inr c3 \<Rightarrow> Inr (c3, snd st @ [(gid, conf)]))"

definition insert_link :: "env \<Rightarrow> int \<Rightarrow> nat \<times> pyfloat \<Rightarrow> cursor \<Rightarrow> py_error + cursor" where
  \<comment> \<open>the body of the loop over \<open>seen_ingredient_ids\<close>\<close>
  "insert_link e iid p c = execute e (sql_insert_link iid (fst p) (py_round3 (snd p))) c"

definition required_int :: "pyval option \<Rightarrow> py_error + int" where
  \<comment> \<open>\<open>int(item[key])\<close>\<close>
  "required_int v = (case v of None \<Rightarrow> Inl KeyError | Some x \<Rightarrow> py_int x)"

definition write_item :: "env \<Rightarrow> nat \<Rightarrow> extraction_result \<Rightarrow> cursor \<Rightarrow> py_error + cursor" where
  \<comment> \<open>the body of the loop over \<open>results\<close>\<close>
  "write_item e run item c =
     (case required_int (res_item_id item) of
        Inl err \<Rightarrow> Inl err
      | Inr iid \<Rightarrow>
        case required_int (res_restaurant_id item) of
          Inl err \<Rightarrow> Inl err
        | Inr rid \<Rightarrow>
          let name = (case res_item_name item of None \<Rightarrow> [] | Some n \<Rightarrow> n);
              reasoning = res_reasoning item
          in case execute e (sql_upsert_restaurant rid (current_timestamp e)) c of
               Inl err \<Rightarrow> Inl err
             | Inr c1 \<Rightarrow>
               case execute e (sql_upsert_menu_item iid rid name reasoning (current_timestamp e)) c1 of
                 Inl err \<Rightarrow> Inl err
               | Inr c2 \<Rightarrow>
                 case for_each (write_ingredient e run iid) (res_ingredients item) (c2, []) of
                   Inl err \<Rightarrow> Inl err
                 | Inr (c3, seen_ingredient_ids) \<Rightarrow>
                   case execute e (sql_delete_links iid) c3 of
                     Inl err \<Rightarrow> Inl err
                   | Inr c4 \<Rightarrow> for_each (insert_link e iid) seen_ingredient_ids c4)"

definition write_run ::
  "env \<Rightarrow> db \<Rightarrow> extraction_result list \<Rightarrow> string option \<Rightarrow> string option \<Rightarrow> string option
     \<Rightarrow> py_error + nat \<times> db" where
  \<comment> \<open>The store is the connection's view of it; the caller commits or rolls back. A generated
    \<open>run_id\<close> is positive, so the fallback \<open>SELECT LAST_INSERT_ID()\<close> is never taken.\<close>
  "write_run e d results model_name prompt_version pipeline_version =
     (let (pv, pipv) = get_pipeline_config e;
          prompt_version' = (if prompt_version = None \<or> pipeline_version = None
                             then (if prompt_version = None then pv else prompt_version)
                             else prompt_version);
          pipeline_version' = (if prompt_version = None \<or> pipeline_version = None
                               then (if pipeline_version = None then pipv else pipeline_version)
                               else pipeline_version)
      in case execute e
                (sql_insert_run model_name prompt_version' pipeline_version' (current_timestamp e))
                \<lparr>cur_db = d, cur_stmts = 0\<rparr> of
           Inl err \<Rightarrow> Inl err
         | Inr c \<Rightarrow>
             let run = lastrowid (cur_db c)
             in case for_each (write_item e run) results c of
                  Inl err \<Rightarrow> Inl err
                | Inr c' \<Rightarrow> Inr (run, cur_db c'))"

subsection \<open>\<open>run_with_transaction\<close>\<close>



section \<open>Notions used in the statements\<close>

text \<open>
  These are not functions of the program: they name what the theorems speak about (the
  pairs a result contributes, the rows of one item, what a step leaves unchanged).
\<close>

definition empty_db :: db where
  "empty_db = \<lparr>extraction_runs = [], restaurants = Map.empty, menu_items = Map.empty,
     ingredients = [], observations = Map.empty, menu_item_ingredients = []\<rparr>"

definition entry_key :: "ingredient_entry \<Rightarrow> (string \<times> pyfloat) option" where
  \<comment> \<open>the canonical key and the clamped confidence of an entry that is persisted\<close>
  "entry_key ing =
     (case stripped_name ing of
        Inl err \<Rightarrow> None
      | Inr name \<Rightarrow>
          if name = [] then None
          else case entry_confidence ing of
                 Inl err \<Rightarrow> None
               | Inr f \<Rightarrow>
                   if canonicalize_ingredient (PyStr name) = [] then None
                   else Some (canonicalize_ingredient (PyStr name), clamp01 f))"


definition accumulated :: "db \<Rightarrow> ingredient_entry list \<Rightarrow> seen" where
  \<comment> \<open>\<open>seen_ingredient_ids\<close> for a list of entries, the identifiers read from the store\<close>
  "accumulated d ings =
     map (\<lambda>(k, conf). (case sql_select_ingredient_id d k of Some g \<Rightarrow> g | None \<Rightarrow> 0, conf))
       (List.map_filter entry_key ings)"

definition resolved :: "db \<Rightarrow> ingredient_entry list \<Rightarrow> bool" where
  \<comment> \<open>every key of the entries has an identifier in the store\<close>
  "resolved d ings \<longleftrightarrow>
     list_all (\<lambda>(k, conf). sql_select_ingredient_id d k \<noteq> None) (List.map_filter entry_key ings)"

definition link_rows :: "int \<Rightarrow> seen \<Rightarrow> link_row list" where
  \<comment> \<open>the snapshot rows inserted for an accumulator\<close>
  "link_rows iid ps =
     map (\<lambda>(g, conf). \<lparr>link_item_id = iid, link_ingredient_id = g, link_confidence = py_round3 conf\<rparr>) ps"

definition links_of :: "db \<Rightarrow> int \<Rightarrow> link_row list" where
  \<comment> \<open>the snapshot rows of one item\<close>
  "links_of d iid = filter (\<lambda>l. link_item_id l = iid) (menu_item_ingredients d)"

definition results_for :: "int \<Rightarrow> extraction_result list \<Rightarrow> extraction_result list" where
  \<comment> \<open>the results of a batch that carry an \<open>item_id\<close>\<close>
  "results_for iid results = filter (\<lambda>r. required_int (res_item_id r) = Inr iid) results"

definition obs_row :: "env \<Rightarrow> nat \<times> pyfloat \<Rightarrow> observation_row" where
  \<comment> \<open>the observation written for an accumulated pair\<close>
  "obs_row e p = \<lparr>obs_confidence = py_round3 (snd p), obs_created_at = current_timestamp e\<rparr>"

definition confidences_of :: "ingredient_entry list \<Rightarrow> pyfloat set" where
  \<comment> \<open>the confidences of the entries, as floats\<close>
  "confidences_of ings = {f. \<exists>ing \<in> set ings. entry_confidence ing = Inr f}"

definition entry_confidences :: "extraction_result list \<Rightarrow> pyfloat set" where
  "entry_confidences results = (\<Union>r \<in> set results. confidences_of (res_ingredients r))"

fun stored_confidence_ok :: "pyfloat \<Rightarrow> bool" where
  \<comment> \<open>between 0 and 1, with at most three decimals\<close>
  "stored_confidence_ok (Finite q) \<longleftrightarrow> 0 \<le> q \<and> q \<le> 1 \<and> of_int \<lfloor>q * 1000\<rfloor> = q * 1000"
| "stored_confidence_ok _ \<longleftrightarrow> False"



definition ing_frame :: "cursor \<times> seen \<Rightarrow> cursor \<times> seen \<Rightarrow> bool" where
  \<comment> \<open>what the loop over the entries keeps: identifiers once given, and four tables\<close>
  "ing_frame a b \<longleftrightarrow>
     (\<forall>k g. sql_select_ingredient_id (cur_db (fst a)) k = Some g \<longrightarrow>
            sql_select_ingredient_id (cur_db (fst b)) k = Some g)
     \<and> menu_item_ingredients (cur_db (fst b)) = menu_item_ingredients (cur_db (fst a))
     \<and> restaurants (cur_db (fst b)) = restaurants (cur_db (fst a))
     \<and> menu_items (cur_db (fst b)) = menu_items (cur_db (fst a))
     \<and> extraction_runs (cur_db (fst b)) = extraction_runs (cur_db (fst a))"

definition obs_frame :: "pyfloat set \<Rightarrow> nat \<Rightarrow> int \<Rightarrow> db \<Rightarrow> db \<Rightarrow> bool" where
  \<comment> \<open>the loop over the entries of one item writes observations of this run and item only,
    each with the clamped and rounded confidence of an entry\<close>
  "obs_frame F run iid d d' \<longleftrightarrow>
     (\<forall>key. fst key \<noteq> run \<or> fst (snd key) \<noteq> iid \<longrightarrow> observations d' key = observations d key)
     \<and> (\<forall>key row. observations d' key = Some row \<longrightarrow>
           observations d key = Some row \<or> (\<exists>f \<in> F. obs_confidence row = py_round3 (clamp01 f)))"

definition run_frame :: "pyfloat set \<Rightarrow> nat \<Rightarrow> db \<Rightarrow> db \<Rightarrow> bool" where
  \<comment> \<open>what the loop over the results keeps: identifiers once given, the runs, the names of
    the restaurants, the observations of other runs; what it writes carries the clamped and
    rounded confidence of an entry\<close>
  "run_frame F run d d' \<longleftrightarrow>
     (\<forall>k g. sql_select_ingredient_id d k = Some g \<longrightarrow> sql_select_ingredient_id d' k = Some g)
     \<and> extraction_runs d' = extraction_runs d
     \<and> (\<forall>rid r. restaurants d rid = Some r \<longrightarrow>
           (\<exists>r'. restaurants d' rid = Some r' \<and> restaurant_name r' = restaurant_name r))
     \<and> (\<forall>key. fst key \<noteq> run \<longrightarrow> observations d' key = observations d key)
     \<and> (\<forall>key row. observations d' key = Some row \<longrightarrow>
           observations d key = Some row \<or> (\<exists>f \<in> F. obs_confidence row = py_round3 (clamp01 f)))
     \<and> (\<forall>l \<in> set (menu_item_ingredients d').
           l \<in> set (menu_item_ingredients d) \<or> (\<exists>f \<in> F. link_confidence l = py_round3 (clamp01 f)))"

section \<open>The canonical key\<close>







































section \<open>The write path\<close>

lemmas eval_defs = write_run_def write_item_def write_ingredient_def execute_def
  get_pipeline_config_def required_int_def stripped_name_def entry_confidence_def
  insert_link_def lastrowid_def fresh_id_def
  sql_insert_run_def sql_upsert_restaurant_def sql_upsert_menu_item_def sql_upsert_ingredient_def
  sql_select_ingredient_id_def sql_upsert_observation_def sql_delete_links_def sql_insert_link_def
  canonicalize_ingredient_def display_name_for_ingredient_def py_strip_def py_lower_def py_title_def
  strip_trailing_punct_def lower_char_def upper_char_def is_space_def is_punct_def is_upper_def is_lower_def
  clamp01_def py_min_def py_max_def round_half_even_def double_limit_def
  empty_db_def Let_def

subsection \<open>Statements and loops\<close>

lemma execute_Inr:
  "execute e stmt c = Inr c' \<longleftrightarrow>
     fail_at e \<noteq> Some (cur_stmts c) \<and>
     (\<exists>d. stmt (cur_db c) = Inr d \<and> c' = \<lparr>cur_db = d, cur_stmts = Suc (cur_stmts c)\<rparr>)"
  by (auto simp: execute_def split: sum.splits)

lemma for_each_append:
  "for_each body (xs @ ys) s =
     (case for_each body xs s of Inl err \<Rightarrow> Inl err | Inr s' \<Rightarrow> for_each body ys s')"
  by (induction xs arbitrary: s) (auto split: sum.splits)

lemma for_each_rel:
  assumes "for_each body xs s = Inr s'"
    and "\<And>x a b. x \<in> set xs \<Longrightarrow> body x a = Inr b \<Longrightarrow> R a b"
    and "\<And>a. R a a" and "\<And>a b c. R a b \<Longrightarrow> R b c \<Longrightarrow> R a c"
  shows "R s s'"
  using assms(1,2)
proof (induction xs arbitrary: s)
  case Nil
  then show ?case using assms(3) by simp
next
  case (Cons x xs)
  then obtain m where m: "body x s = Inr m" "for_each body xs m = Inr s'"
    by (auto split: sum.splits)
  have "R s m" using Cons.prems(2) m(1) by auto
  moreover have "R m s'" using Cons.IH [OF m(2)] Cons.prems(2) by auto
  ultimately show ?case using assms(4) by blast
qed

subsection \<open>The loop over the ingredient entries\<close>

lemma find_map_update:
  "find (\<lambda>r. canonical_name r = k)
     (map (\<lambda>r. if canonical_name r = c then r\<lparr>display_name := v\<rparr> else r) rs) =
   map_option (\<lambda>r. if canonical_name r = c then r\<lparr>display_name := v\<rparr> else r)
     (find (\<lambda>r. canonical_name r = k) rs)"
  by (induction rs) auto

lemma find_snoc:
  "find P (xs @ [y]) = (case find P xs of Some x \<Rightarrow> Some x | None \<Rightarrow> if P y then Some y else None)"
  by (induction xs) auto

lemma select_after_upsert:
  assumes "sql_upsert_ingredient c v d = Inr d'"
  shows "sql_select_ingredient_id d' k =
     (if k = c \<and> sql_select_ingredient_id d c = None
      then Some (fresh_id (map ingredient_id (ingredients d)))
      else sql_select_ingredient_id d k)"
proof (cases "\<exists>r \<in> set (ingredients d). canonical_name r = c")
  case True
  then have "find (\<lambda>r. canonical_name r = c) (ingredients d) \<noteq> None"
    by (auto simp: find_None_iff)
  moreover have "ingredients d' =
      map (\<lambda>r. if canonical_name r = c then r\<lparr>display_name := v\<rparr> else r) (ingredients d)"
    using assms True by (auto simp: sql_upsert_ingredient_def)
  ultimately show ?thesis
    by (cases "find (\<lambda>r. canonical_name r = k) (ingredients d)")
       (auto simp: sql_select_ingredient_id_def find_map_update)
next
  case False
  then have n: "find (\<lambda>r. canonical_name r = c) (ingredients d) = None"
    by (auto simp: find_None_iff)
  have "ingredients d' = ingredients d @
      [\<lparr>ingredient_id = fresh_id (map ingredient_id (ingredients d)),
        canonical_name = c, display_name = v\<rparr>]"
    using assms False by (auto simp: sql_upsert_ingredient_def)
  then show ?thesis using n
    by (cases "find (\<lambda>r. canonical_name r = k) (ingredients d)")
       (auto simp: sql_select_ingredient_id_def find_snoc)
qed

lemma upsert_ingredient_frame:
  assumes "sql_upsert_ingredient c v d = Inr d'"
  shows "menu_item_ingredients d' = menu_item_ingredients d" "restaurants d' = restaurants d"
    "menu_items d' = menu_items d" "extraction_runs d' = extraction_runs d"
    "observations d' = observations d"
  using assms by (auto simp: sql_upsert_ingredient_def split: if_splits)

lemma write_ingredient_skip:
  "entry_key ing = None \<Longrightarrow> write_ingredient e run iid ing st = Inr st' \<Longrightarrow> st' = st"
  by (auto simp: write_ingredient_def entry_key_def Let_def split: sum.splits if_splits)

lemma write_ingredient_Some:
  assumes "entry_key ing = Some (k, conf)"
    and "write_ingredient e run iid ing (c, seen) = Inr (c', seen')"
  shows "\<exists>d1 g v. sql_upsert_ingredient k v (cur_db c) = Inr d1
     \<and> sql_select_ingredient_id d1 k = Some g
     \<and> cur_db c' = d1\<lparr>observations := (observations d1)((run, iid, g) \<mapsto>
           \<lparr>obs_confidence = py_round3 conf, obs_created_at = current_timestamp e\<rparr>)\<rparr>
     \<and> seen' = seen @ [(g, conf)]"
  using assms
  by (auto simp: write_ingredient_def entry_key_def Let_def execute_Inr sql_upsert_observation_def
      split: sum.splits if_splits option.splits)

lemma write_ingredient_persist:
  assumes k: "entry_key ing = Some (k, conf)"
    and w: "write_ingredient e run iid ing (c, seen) = Inr (c', seen')"
  shows "\<exists>g. sql_select_ingredient_id (cur_db c') k = Some g \<and> seen' = seen @ [(g, conf)]
     \<and> observations (cur_db c') = (observations (cur_db c))((run, iid, g) \<mapsto>
           \<lparr>obs_confidence = py_round3 conf, obs_created_at = current_timestamp e\<rparr>)"
    and "\<And>k' g'. sql_select_ingredient_id (cur_db c) k' = Some g' \<Longrightarrow>
            sql_select_ingredient_id (cur_db c') k' = Some g'"
    and "menu_item_ingredients (cur_db c') = menu_item_ingredients (cur_db c)"
    and "restaurants (cur_db c') = restaurants (cur_db c)"
    and "menu_items (cur_db c') = menu_items (cur_db c)"
    and "extraction_runs (cur_db c') = extraction_runs (cur_db c)"
proof -
  from write_ingredient_Some [OF k w] obtain d1 g v where
      u: "sql_upsert_ingredient k v (cur_db c) = Inr d1"
      and g: "sql_select_ingredient_id d1 k = Some g"
      and d': "cur_db c' = d1\<lparr>observations := (observations d1)((run, iid, g) \<mapsto>
           \<lparr>obs_confidence = py_round3 conf, obs_created_at = current_timestamp e\<rparr>)\<rparr>"
      and s: "seen' = seen @ [(g, conf)]"
    by blast
  have sel: "sql_select_ingredient_id (cur_db c') x = sql_select_ingredient_id d1 x" for x
    by (simp add: d' sql_select_ingredient_id_def)
  show "\<exists>g. sql_select_ingredient_id (cur_db c') k = Some g \<and> seen' = seen @ [(g, conf)]
     \<and> observations (cur_db c') = (observations (cur_db c))((run, iid, g) \<mapsto>
           \<lparr>obs_confidence = py_round3 conf, obs_created_at = current_timestamp e\<rparr>)"
  proof -
    have "observations (cur_db c') = (observations (cur_db c))((run, iid, g) \<mapsto>
           \<lparr>obs_confidence = py_round3 conf, obs_created_at = current_timestamp e\<rparr>)"
      by (simp add: d' upsert_ingredient_frame [OF u])
    then show ?thesis using g s by (simp add: sel)
  qed
  show "sql_select_ingredient_id (cur_db c') k' = Some g'"
    if "sql_select_ingredient_id (cur_db c) k' = Some g'" for k' g'
    using that by (auto simp: sel select_after_upsert [OF u])
  show "menu_item_ingredients (cur_db c') = menu_item_ingredients (cur_db c)"
    "restaurants (cur_db c') = restaurants (cur_db c)"
    "menu_items (cur_db c') = menu_items (cur_db c)"
    "extraction_runs (cur_db c') = extraction_runs (cur_db c)"
    by (simp_all add: d' upsert_ingredient_frame [OF u])
qed

lemma write_ingredient_frame:
  assumes "write_ingredient e run iid ing a = Inr b"
  shows "ing_frame a b"
proof (cases "entry_key ing")
  case None
  then have "b = a" using assms by (rule write_ingredient_skip)
  then show ?thesis by (simp add: ing_frame_def)
next
  case (Some p)
  obtain k conf where p: "p = (k, conf)" by (cases p)
  obtain c seen c' seen' where ab: "a = (c, seen)" "b = (c', seen')" by (cases a, cases b)
  show ?thesis
    using write_ingredient_persist(2-6) [OF Some [unfolded p] assms [unfolded ab]]
    by (simp add: ing_frame_def ab)
qed

lemma write_ingredients_frame:
  assumes "for_each (write_ingredient e run iid) ings a = Inr b"
  shows "ing_frame a b"
  using assms
proof (rule for_each_rel)
  show "ing_frame x y" if "write_ingredient e run iid ing x = Inr y" for ing x y
    using that by (rule write_ingredient_frame)
  show "ing_frame x x" for x by (simp add: ing_frame_def)
  show "ing_frame x z" if "ing_frame x y" "ing_frame y z" for x y z
    using that by (simp add: ing_frame_def)
qed

lemma write_ingredients_seen:
  assumes "for_each (write_ingredient e run iid) ings (c, seen) = Inr (c', seen')"
  shows "seen' = seen @ accumulated (cur_db c') ings
     \<and> (\<forall>(k, conf) \<in> set (List.map_filter entry_key ings).
           sql_select_ingredient_id (cur_db c') k \<noteq> None)"
  using assms
proof (induction ings arbitrary: c seen)
  case Nil
  then show ?case by (simp add: accumulated_def List.map_filter_simps)
next
  case (Cons ing ings)
  then obtain c1 seen1 where
      1: "write_ingredient e run iid ing (c, seen) = Inr (c1, seen1)"
      and 2: "for_each (write_ingredient e run iid) ings (c1, seen1) = Inr (c', seen')"
    by (auto split: sum.splits)
  note ih = Cons.IH [OF 2]
  have fr: "ing_frame (c1, seen1) (c', seen')" using 2 by (rule write_ingredients_frame)
  show ?case
  proof (cases "entry_key ing")
    case None
    then have "(c1, seen1) = (c, seen)" using 1 by (rule write_ingredient_skip)
    then show ?thesis using ih None by (simp add: accumulated_def List.map_filter_simps)
  next
    case (Some p)
    obtain k conf where p: "p = (k, conf)" by (cases p)
    from write_ingredient_persist(1) [OF Some [unfolded p] 1]
    obtain g where g: "sql_select_ingredient_id (cur_db c1) k = Some g" "seen1 = seen @ [(g, conf)]"
      by blast
    then have "sql_select_ingredient_id (cur_db c') k = Some g"
      using fr by (simp add: ing_frame_def)
    then show ?thesis using ih g(2) Some p
      by (simp add: accumulated_def List.map_filter_simps)
  qed
qed

subsection \<open>The snapshot sync and the loop over the results\<close>

lemma insert_link_Inr:
  assumes "insert_link e iid p c = Inr c'"
  shows "cur_db c' = (cur_db c)\<lparr>menu_item_ingredients := menu_item_ingredients (cur_db c) @ link_rows iid [p]\<rparr>"
    and "\<not> (\<exists>l \<in> set (menu_item_ingredients (cur_db c)).
              link_item_id l = iid \<and> link_ingredient_id l = fst p)"
  using assms
  by (auto simp: insert_link_def execute_Inr sql_insert_link_def link_rows_def split: if_splits prod.splits)

lemma insert_links_Inr:
  assumes "for_each (insert_link e iid) ps c = Inr c'"
  shows "cur_db c' = (cur_db c)\<lparr>menu_item_ingredients := menu_item_ingredients (cur_db c) @ link_rows iid ps\<rparr>
     \<and> distinct (map fst ps)
     \<and> (\<forall>l \<in> set (menu_item_ingredients (cur_db c)). link_item_id l = iid \<longrightarrow> link_ingredient_id l \<notin> fst ` set ps)"
  using assms
proof (induction ps arbitrary: c)
  case Nil
  then show ?case by (simp add: link_rows_def)
next
  case (Cons p ps)
  then obtain c1 where 1: "insert_link e iid p c = Inr c1"
      and 2: "for_each (insert_link e iid) ps c1 = Inr c'"
    by (auto split: sum.splits)
  note a = insert_link_Inr [OF 1] and ih = Cons.IH [OF 2]
  have l1: "menu_item_ingredients (cur_db c1) = menu_item_ingredients (cur_db c) @ link_rows iid [p]"
    by (simp add: a(1))
  have "cur_db c' = (cur_db c)\<lparr>menu_item_ingredients := menu_item_ingredients (cur_db c) @ link_rows iid (p # ps)\<rparr>"
    using ih by (simp add: a(1) link_rows_def)
  moreover have "fst p \<notin> fst ` set ps"
    using ih by (auto simp: l1 link_rows_def split: prod.splits)
  moreover have "\<forall>l \<in> set (menu_item_ingredients (cur_db c)). link_item_id l = iid \<longrightarrow> link_ingredient_id l \<notin> fst ` set (p # ps)"
    using ih a(2) by (auto simp: l1)
  ultimately show ?case using ih by simp
qed

lemma accumulated_stable:
  assumes "\<forall>(k, conf) \<in> set (List.map_filter entry_key ings). sql_select_ingredient_id d k \<noteq> None"
    and "\<And>k g. sql_select_ingredient_id d k = Some g \<Longrightarrow> sql_select_ingredient_id d' k = Some g"
  shows "accumulated d' ings = accumulated d ings"
  unfolding accumulated_def using assms by (intro map_cong) auto

lemma write_item_Inr:
  assumes "write_item e run item c = Inr c'"
  shows "\<exists>iid rid c2 c3.
      required_int (res_item_id item) = Inr iid \<and> required_int (res_restaurant_id item) = Inr rid
    \<and> cur_db c2 = (cur_db c)\<lparr>
         restaurants := (restaurants (cur_db c))(rid \<mapsto>
            (case restaurants (cur_db c) rid of
               None \<Rightarrow> \<lparr>restaurant_name = None, restaurant_updated_at = current_timestamp e\<rparr>
             | Some r \<Rightarrow> r\<lparr>restaurant_updated_at := current_timestamp e\<rparr>)),
         menu_items := (menu_items (cur_db c))(iid \<mapsto>
            \<lparr>item_restaurant_id = rid,
             item_name = (case res_item_name item of None \<Rightarrow> [] | Some n \<Rightarrow> n),
             item_reasoning = res_reasoning item, item_updated_at = current_timestamp e\<rparr>)\<rparr>
    \<and> for_each (write_ingredient e run iid) (res_ingredients item) (c2, []) =
          Inr (c3, accumulated (cur_db c3) (res_ingredients item))
    \<and> (\<forall>(k, conf) \<in> set (List.map_filter entry_key (res_ingredients item)).
           sql_select_ingredient_id (cur_db c3) k \<noteq> None)
    \<and> distinct (map fst (accumulated (cur_db c3) (res_ingredients item)))
    \<and> cur_db c' = (cur_db c3)\<lparr>menu_item_ingredients :=
          filter (\<lambda>l. link_item_id l \<noteq> iid) (menu_item_ingredients (cur_db c3))
          @ link_rows iid (accumulated (cur_db c3) (res_ingredients item))\<rparr>"
proof -
  from assms obtain iid rid where
      i: "required_int (res_item_id item) = Inr iid" "required_int (res_restaurant_id item) = Inr rid"
    by (auto simp: write_item_def split: sum.splits)
  let ?name = "case res_item_name item of None \<Rightarrow> [] | Some n \<Rightarrow> n"
  from assms i obtain c1 c2 c3 seen c4 where
      1: "execute e (sql_upsert_restaurant rid (current_timestamp e)) c = Inr c1"
      and 2: "execute e (sql_upsert_menu_item iid rid ?name (res_reasoning item) (current_timestamp e)) c1 = Inr c2"
      and 3: "for_each (write_ingredient e run iid) (res_ingredients item) (c2, []) = Inr (c3, seen)"
      and 4: "execute e (sql_delete_links iid) c3 = Inr c4"
      and 5: "for_each (insert_link e iid) seen c4 = Inr c'"
    by (auto simp: write_item_def Let_def split: sum.splits prod.splits)
  have s: "seen = accumulated (cur_db c3) (res_ingredients item)"
      and r: "\<forall>(k, conf) \<in> set (List.map_filter entry_key (res_ingredients item)).
           sql_select_ingredient_id (cur_db c3) k \<noteq> None"
    using write_ingredients_seen [OF 3] by simp_all
  have d2: "cur_db c2 = (cur_db c)\<lparr>
         restaurants := (restaurants (cur_db c))(rid \<mapsto>
            (case restaurants (cur_db c) rid of
               None \<Rightarrow> \<lparr>restaurant_name = None, restaurant_updated_at = current_timestamp e\<rparr>
             | Some r \<Rightarrow> r\<lparr>restaurant_updated_at := current_timestamp e\<rparr>)),
         menu_items := (menu_items (cur_db c))(iid \<mapsto>
            \<lparr>item_restaurant_id = rid, item_name = ?name,
             item_reasoning = res_reasoning item, item_updated_at = current_timestamp e\<rparr>)\<rparr>"
    using 1 2 by (auto simp: execute_Inr sql_upsert_restaurant_def sql_upsert_menu_item_def)
  have d4: "cur_db c4 = (cur_db c3)\<lparr>menu_item_ingredients :=
      filter (\<lambda>l. link_item_id l \<noteq> iid) (menu_item_ingredients (cur_db c3))\<rparr>"
    using 4 by (auto simp: execute_Inr sql_delete_links_def)
  note l = insert_links_Inr [OF 5]
  have "cur_db c' = (cur_db c3)\<lparr>menu_item_ingredients :=
          filter (\<lambda>l. link_item_id l \<noteq> iid) (menu_item_ingredients (cur_db c3))
          @ link_rows iid (accumulated (cur_db c3) (res_ingredients item))\<rparr>"
    using l by (simp add: d4 s)
  moreover have "distinct (map fst (accumulated (cur_db c3) (res_ingredients item)))"
    using l s by simp
  ultimately show ?thesis using i d2 3 s r by blast
qed

subsection \<open>What a run leaves as it is\<close>

lemma obs_frame_refl: "obs_frame F run iid d d"
  by (simp add: obs_frame_def)

lemma obs_frame_trans: "obs_frame F run iid a b \<Longrightarrow> obs_frame F run iid b c \<Longrightarrow> obs_frame F run iid a c"
  unfolding obs_frame_def by metis

lemma run_frame_refl: "run_frame F run d d"
  by (simp add: run_frame_def)

lemma run_frame_trans:
  assumes "run_frame F run a b" "run_frame F run b c"
  shows "run_frame F run a c"
proof -
  have 1: "\<forall>k g. sql_select_ingredient_id a k = Some g \<longrightarrow> sql_select_ingredient_id c k = Some g"
    using assms unfolding run_frame_def by blast
  have 2: "extraction_runs c = extraction_runs a"
    using assms unfolding run_frame_def by simp
  have 3: "\<forall>rid r. restaurants a rid = Some r \<longrightarrow>
           (\<exists>r'. restaurants c rid = Some r' \<and> restaurant_name r' = restaurant_name r)"
    using assms unfolding run_frame_def by metis
  have 4: "\<forall>key. fst key \<noteq> run \<longrightarrow> observations c key = observations a key"
    using assms unfolding run_frame_def by simp
  have 5: "\<forall>key row. observations c key = Some row \<longrightarrow>
           observations a key = Some row \<or> (\<exists>f \<in> F. obs_confidence row = py_round3 (clamp01 f))"
    using assms unfolding run_frame_def by metis
  have 6: "\<forall>l \<in> set (menu_item_ingredients c).
           l \<in> set (menu_item_ingredients a) \<or> (\<exists>f \<in> F. link_confidence l = py_round3 (clamp01 f))"
    using assms unfolding run_frame_def by blast
  show ?thesis unfolding run_frame_def using 1 2 3 4 5 6 by blast
qed

lemma run_frame_mono: "F \<subseteq> G \<Longrightarrow> run_frame F run d d' \<Longrightarrow> run_frame G run d d'"
  unfolding run_frame_def by (meson subsetD)

lemma entry_key_clamped:
  "entry_key ing = Some (k, conf) \<Longrightarrow> \<exists>f. entry_confidence ing = Inr f \<and> conf = clamp01 f"
  by (auto simp: entry_key_def split: sum.splits if_splits)

lemma set_map_filter: "y \<in> set (List.map_filter f xs) \<longleftrightarrow> (\<exists>x \<in> set xs. f x = Some y)"
  by (induction xs) (auto simp: List.map_filter_simps split: option.splits)

lemma accumulated_clamped:
  assumes "p \<in> set (accumulated d ings)"
  shows "\<exists>f \<in> confidences_of ings. snd p = clamp01 f"
proof -
  from assms obtain k conf where "(k, conf) \<in> set (List.map_filter entry_key ings)" "snd p = conf"
    by (auto simp: accumulated_def)
  then obtain ing where "ing \<in> set ings" "entry_key ing = Some (k, conf)"
    by (auto simp: set_map_filter)
  then show ?thesis using entry_key_clamped \<open>snd p = conf\<close>
    by (fastforce simp: confidences_of_def)
qed

lemma write_ingredient_obs:
  assumes "write_ingredient e run iid ing a = Inr b"
    and F: "\<And>f. entry_confidence ing = Inr f \<Longrightarrow> f \<in> F"
  shows "obs_frame F run iid (cur_db (fst a)) (cur_db (fst b))"
proof (cases "entry_key ing")
  case None
  then have "b = a" using assms(1) by (rule write_ingredient_skip)
  then show ?thesis by (simp add: obs_frame_refl)
next
  case (Some p)
  obtain k conf where p: "p = (k, conf)" by (cases p)
  obtain c seen c' seen' where ab: "a = (c, seen)" "b = (c', seen')" by (cases a, cases b)
  from write_ingredient_persist(1) [OF Some [unfolded p] assms(1) [unfolded ab]]
  obtain g where o: "observations (cur_db c') = (observations (cur_db c))((run, iid, g) \<mapsto>
           \<lparr>obs_confidence = py_round3 conf, obs_created_at = current_timestamp e\<rparr>)"
    by blast
  obtain f where "entry_confidence ing = Inr f" "conf = clamp01 f"
    using entry_key_clamped Some p by blast
  then have "f \<in> F" "conf = clamp01 f" using F by simp_all
  then show ?thesis unfolding obs_frame_def ab by (auto simp: o)
qed

lemma write_ingredients_obs:
  assumes "for_each (write_ingredient e run iid) ings a = Inr b"
    and F: "confidences_of ings \<subseteq> F"
  shows "obs_frame F run iid (cur_db (fst a)) (cur_db (fst b))"
  using assms(1)
proof (rule for_each_rel)
  show "obs_frame F run iid (cur_db (fst x)) (cur_db (fst y))"
    if "ing \<in> set ings" "write_ingredient e run iid ing x = Inr y" for ing x y
    using that(2)
  proof (rule write_ingredient_obs)
    show "f \<in> F" if "entry_confidence ing = Inr f" for f
      using that \<open>ing \<in> set ings\<close> F by (auto simp: confidences_of_def)
  qed
  show "obs_frame F run iid (cur_db (fst x)) (cur_db (fst x))" for x by (rule obs_frame_refl)
  show "obs_frame F run iid (cur_db (fst x)) (cur_db (fst z))"
    if "obs_frame F run iid (cur_db (fst x)) (cur_db (fst y))"
       "obs_frame F run iid (cur_db (fst y)) (cur_db (fst z))" for x y z
    using that by (rule obs_frame_trans)
qed

lemma select_links_update [simp]:
  "sql_select_ingredient_id (d\<lparr>menu_item_ingredients := x\<rparr>) k = sql_select_ingredient_id d k"
  by (simp add: sql_select_ingredient_id_def)

lemma accumulated_links_update [simp]:
  "accumulated (d\<lparr>menu_item_ingredients := x\<rparr>) ings = accumulated d ings"
  by (simp add: accumulated_def)

lemma write_item_effect:
  assumes "write_item e run item c = Inr c'"
    and F: "confidences_of (res_ingredients item) \<subseteq> F"
  shows "\<exists>iid. required_int (res_item_id item) = Inr iid
     \<and> menu_item_ingredients (cur_db c') =
         filter (\<lambda>l. link_item_id l \<noteq> iid) (menu_item_ingredients (cur_db c))
         @ link_rows iid (accumulated (cur_db c') (res_ingredients item))
     \<and> distinct (map fst (accumulated (cur_db c') (res_ingredients item)))
     \<and> (\<forall>(k, conf) \<in> set (List.map_filter entry_key (res_ingredients item)).
           sql_select_ingredient_id (cur_db c') k \<noteq> None)"
    and "run_frame F run (cur_db c) (cur_db c')"
proof -
  from write_item_Inr [OF assms(1)] obtain iid rid c2 c3 where
      i: "required_int (res_item_id item) = Inr iid"
      and d2: "cur_db c2 = (cur_db c)\<lparr>
         restaurants := (restaurants (cur_db c))(rid \<mapsto>
            (case restaurants (cur_db c) rid of
               None \<Rightarrow> \<lparr>restaurant_name = None, restaurant_updated_at = current_timestamp e\<rparr>
             | Some r \<Rightarrow> r\<lparr>restaurant_updated_at := current_timestamp e\<rparr>)),
         menu_items := (menu_items (cur_db c))(iid \<mapsto>
            \<lparr>item_restaurant_id = rid,
             item_name = (case res_item_name item of None \<Rightarrow> [] | Some n \<Rightarrow> n),
             item_reasoning = res_reasoning item, item_updated_at = current_timestamp e\<rparr>)\<rparr>"
      and l: "for_each (write_ingredient e run iid) (res_ingredients item) (c2, []) =
          Inr (c3, accumulated (cur_db c3) (res_ingredients item))"
      and r: "\<forall>(k, conf) \<in> set (List.map_filter entry_key (res_ingredients item)).
           sql_select_ingredient_id (cur_db c3) k \<noteq> None"
      and dist: "distinct (map fst (accumulated (cur_db c3) (res_ingredients item)))"
      and d': "cur_db c' = (cur_db c3)\<lparr>menu_item_ingredients :=
          filter (\<lambda>l. link_item_id l \<noteq> iid) (menu_item_ingredients (cur_db c3))
          @ link_rows iid (accumulated (cur_db c3) (res_ingredients item))\<rparr>"
    by blast
  have fr: "ing_frame (c2, []) (c3, accumulated (cur_db c3) (res_ingredients item))"
    using l by (rule write_ingredients_frame)
  have ob: "obs_frame F run iid (cur_db c2) (cur_db c3)"
    using write_ingredients_obs [OF l F] by simp
  have l3: "menu_item_ingredients (cur_db c3) = menu_item_ingredients (cur_db c)"
    using fr by (simp add: ing_frame_def d2)
  show "\<exists>iid. required_int (res_item_id item) = Inr iid
     \<and> menu_item_ingredients (cur_db c') =
         filter (\<lambda>l. link_item_id l \<noteq> iid) (menu_item_ingredients (cur_db c))
         @ link_rows iid (accumulated (cur_db c') (res_ingredients item))
     \<and> distinct (map fst (accumulated (cur_db c') (res_ingredients item)))
     \<and> (\<forall>(k, conf) \<in> set (List.map_filter entry_key (res_ingredients item)).
           sql_select_ingredient_id (cur_db c') k \<noteq> None)"
    using i r dist by (simp add: d' l3)
  have s2: "sql_select_ingredient_id (cur_db c2) k = sql_select_ingredient_id (cur_db c) k" for k
    by (simp add: d2 sql_select_ingredient_id_def)
  have 1: "\<forall>k g. sql_select_ingredient_id (cur_db c) k = Some g \<longrightarrow>
      sql_select_ingredient_id (cur_db c') k = Some g"
    using fr by (simp add: ing_frame_def d' s2)
  have 2: "extraction_runs (cur_db c') = extraction_runs (cur_db c)"
    using fr by (simp add: ing_frame_def d' d2)
  have "restaurants (cur_db c') = restaurants (cur_db c2)"
    using fr by (simp add: ing_frame_def d')
  then have 3: "\<forall>rid' r. restaurants (cur_db c) rid' = Some r \<longrightarrow>
      (\<exists>r'. restaurants (cur_db c') rid' = Some r' \<and> restaurant_name r' = restaurant_name r)"
    by (simp add: d2)
  have o2: "observations (cur_db c2) = observations (cur_db c)" by (simp add: d2)
  have o': "observations (cur_db c') = observations (cur_db c3)" by (simp add: d')
  have 4: "\<forall>key. fst key \<noteq> run \<longrightarrow> observations (cur_db c') key = observations (cur_db c) key"
    using ob by (simp add: obs_frame_def o2 o')
  have 5: "\<forall>key row. observations (cur_db c') key = Some row \<longrightarrow>
      observations (cur_db c) key = Some row \<or> (\<exists>f \<in> F. obs_confidence row = py_round3 (clamp01 f))"
    using ob by (simp add: obs_frame_def o2 o')
  have 6: "\<forall>l \<in> set (menu_item_ingredients (cur_db c')).
      l \<in> set (menu_item_ingredients (cur_db c)) \<or> (\<exists>f \<in> F. link_confidence l = py_round3 (clamp01 f))"
  proof
    fix x assume "x \<in> set (menu_item_ingredients (cur_db c'))"
    then consider "x \<in> set (menu_item_ingredients (cur_db c))"
      | "x \<in> set (link_rows iid (accumulated (cur_db c3) (res_ingredients item)))"
      by (auto simp: d' l3)
    then show "x \<in> set (menu_item_ingredients (cur_db c)) \<or> (\<exists>f \<in> F. link_confidence x = py_round3 (clamp01 f))"
    proof cases
      case 1
      then show ?thesis by simp
    next
      case 2
      then obtain p where "p \<in> set (accumulated (cur_db c3) (res_ingredients item))"
          "link_confidence x = py_round3 (snd p)"
        by (auto simp: link_rows_def)
      then show ?thesis using accumulated_clamped F by (metis subsetD)
    qed
  qed
  show "run_frame F run (cur_db c) (cur_db c')"
    unfolding run_frame_def using 1 2 3 4 5 6 by blast
qed

lemma write_items_frame:
  assumes "for_each (write_item e run) results c = Inr c'"
    and F: "\<And>r. r \<in> set results \<Longrightarrow> confidences_of (res_ingredients r) \<subseteq> F"
  shows "run_frame F run (cur_db c) (cur_db c')"
  using assms(1)
proof (rule for_each_rel)
  show "run_frame F run (cur_db x) (cur_db y)"
    if "item \<in> set results" "write_item e run item x = Inr y" for item x y
    using that(2) F [OF that(1)] by (rule write_item_effect(2))
  show "run_frame F run (cur_db x) (cur_db x)" for x by (rule run_frame_refl)
  show "run_frame F run (cur_db x) (cur_db z)"
    if "run_frame F run (cur_db x) (cur_db y)" "run_frame F run (cur_db y) (cur_db z)" for x y z
    using that by (rule run_frame_trans)
qed

subsection \<open>The current snapshot after a run (C1)\<close>

lemma filter_link_rows_same: "filter (\<lambda>l. link_item_id l = iid) (link_rows iid ps) = link_rows iid ps"
  by (induction ps) (auto simp: link_rows_def)

lemma filter_link_rows_other:
  "iid0 \<noteq> iid \<Longrightarrow> filter (\<lambda>l. link_item_id l = iid) (link_rows iid0 ps) = []"
  by (induction ps) (auto simp: link_rows_def)

lemma map_ingredient_link_rows: "map link_ingredient_id (link_rows iid ps) = map fst ps"
  by (induction ps) (auto simp: link_rows_def)

lemma resolved_stable:
  assumes "resolved d ings"
    and "\<forall>k g. sql_select_ingredient_id d k = Some g \<longrightarrow> sql_select_ingredient_id d' k = Some g"
  shows "resolved d' ings" "accumulated d' ings = accumulated d ings"
proof -
  have r: "\<forall>(k, conf) \<in> set (List.map_filter entry_key ings). sql_select_ingredient_id d k \<noteq> None"
    using assms(1) by (simp add: resolved_def list_all_iff)
  then show "resolved d' ings"
    using assms(2) by (fastforce simp: resolved_def list_all_iff)
  show "accumulated d' ings = accumulated d ings"
    using r assms(2) by (intro accumulated_stable) auto
qed

lemma write_items_links:
  assumes "for_each (write_item e run) results c = Inr c'"
  shows "if results_for iid results = [] then links_of (cur_db c') iid = links_of (cur_db c) iid
         else links_of (cur_db c') iid =
                link_rows iid (accumulated (cur_db c') (res_ingredients (last (results_for iid results))))
              \<and> resolved (cur_db c') (res_ingredients (last (results_for iid results)))
              \<and> distinct (map link_ingredient_id (links_of (cur_db c') iid))"
  using assms
proof (induction results arbitrary: c)
  case Nil
  then show ?case by (simp add: results_for_def)
next
  case (Cons item rest)
  then obtain c1 where 1: "write_item e run item c = Inr c1"
      and 2: "for_each (write_item e run) rest c1 = Inr c'"
    by (auto split: sum.splits)
  note ih = Cons.IH [OF 2]
  from write_item_effect(1) [OF 1 subset_UNIV] obtain iid0 where
      i: "required_int (res_item_id item) = Inr iid0"
      and l1: "menu_item_ingredients (cur_db c1) =
         filter (\<lambda>l. link_item_id l \<noteq> iid0) (menu_item_ingredients (cur_db c))
         @ link_rows iid0 (accumulated (cur_db c1) (res_ingredients item))"
      and dist: "distinct (map fst (accumulated (cur_db c1) (res_ingredients item)))"
      and r1: "\<forall>(k, conf) \<in> set (List.map_filter entry_key (res_ingredients item)).
           sql_select_ingredient_id (cur_db c1) k \<noteq> None"
    by blast
  have st: "\<forall>k g. sql_select_ingredient_id (cur_db c1) k = Some g \<longrightarrow>
      sql_select_ingredient_id (cur_db c') k = Some g"
    using write_items_frame [OF 2 subset_UNIV] by (simp add: run_frame_def)
  have res1: "resolved (cur_db c1) (res_ingredients item)"
    using r1 by (simp add: resolved_def list_all_iff)
  note stable = resolved_stable [OF res1 st]
  show ?case
  proof (cases "results_for iid rest = []")
    case False
    then have ne: "results_for iid (item # rest) \<noteq> []"
      and eq: "last (results_for iid (item # rest)) = last (results_for iid rest)"
      by (simp_all add: results_for_def)
    show ?thesis unfolding if_not_P [OF ne] eq by (rule ih [unfolded if_not_P [OF False]])
  next
    case True
    then have same: "links_of (cur_db c') iid = links_of (cur_db c1) iid" using ih by simp
    show ?thesis
    proof (cases "iid0 = iid")
      case eq: True
      then have rf: "results_for iid (item # rest) = [item]"
        using True i by (simp add: results_for_def)
      have "links_of (cur_db c1) iid = link_rows iid (accumulated (cur_db c1) (res_ingredients item))"
        using eq by (simp add: links_of_def l1 filter_link_rows_same)
      then have "links_of (cur_db c') iid =
          link_rows iid (accumulated (cur_db c') (res_ingredients item))"
        using same stable(2) by simp
      moreover from this have "distinct (map link_ingredient_id (links_of (cur_db c') iid))"
        using dist stable(2) by (simp add: map_ingredient_link_rows)
      ultimately show ?thesis using stable(1) by (simp add: rf)
    next
      case ne: False
      then have rf: "results_for iid (item # rest) = []"
        using True i by (auto simp: results_for_def)
      have "links_of (cur_db c1) iid = links_of (cur_db c) iid"
        using ne by (simp add: links_of_def l1 filter_link_rows_other) (metis (mono_tags, lifting) filter_cong)
      then show ?thesis using same by (simp add: rf)
    qed
  qed
qed

lemma lastrowid_snoc: "lastrowid (d\<lparr>extraction_runs := rs @ [row]\<rparr>) = run_id row"
  by (cases rs) (simp_all add: lastrowid_def)

lemma write_run_Inr:
  assumes "write_run e d results m pv plv = Inr (run, d')"
  shows "run = fresh_id (map run_id (extraction_runs d)) \<and> fail_at e \<noteq> Some 0
     \<and> (\<exists>c'. for_each (write_item e run) results
           \<lparr>cur_db = d\<lparr>extraction_runs := extraction_runs d @
              [\<lparr>run_id = run, run_model_name = m,
                run_prompt_version = (case pv of None \<Rightarrow> fst (get_pipeline_config e) | Some v \<Rightarrow> Some v),
                run_pipeline_version = (case plv of None \<Rightarrow> snd (get_pipeline_config e) | Some v \<Rightarrow> Some v),
                run_created_at = current_timestamp e\<rparr>]\<rparr>,
            cur_stmts = Suc 0\<rparr> = Inr c' \<and> d' = cur_db c')"
  using assms
  by (auto simp: write_run_def Let_def execute_Inr sql_insert_run_def lastrowid_snoc
      split: sum.splits prod.splits option.splits)

lemma write_run_frame:
  assumes "write_run e d results m pv plv = Inr (run, d')"
  shows "\<exists>row. run_id row = run \<and> run_model_name row = m
      \<and> run_prompt_version row = (case pv of None \<Rightarrow> fst (get_pipeline_config e) | Some v \<Rightarrow> Some v)
      \<and> run_pipeline_version row = (case plv of None \<Rightarrow> snd (get_pipeline_config e) | Some v \<Rightarrow> Some v)
      \<and> run_frame (entry_confidences results) run (d\<lparr>extraction_runs := extraction_runs d @ [row]\<rparr>) d'"
proof -
  from write_run_Inr [OF assms] obtain c' where
      l: "for_each (write_item e run) results
           \<lparr>cur_db = d\<lparr>extraction_runs := extraction_runs d @
              [\<lparr>run_id = run, run_model_name = m,
                run_prompt_version = (case pv of None \<Rightarrow> fst (get_pipeline_config e) | Some v \<Rightarrow> Some v),
                run_pipeline_version = (case plv of None \<Rightarrow> snd (get_pipeline_config e) | Some v \<Rightarrow> Some v),
                run_created_at = current_timestamp e\<rparr>]\<rparr>,
            cur_stmts = Suc 0\<rparr> = Inr c'" and d': "d' = cur_db c'"
    by blast
  have "confidences_of (res_ingredients r) \<subseteq> entry_confidences results" if "r \<in> set results" for r
    using that by (auto simp: entry_confidences_def)
  from write_items_frame [OF l this]
  have "run_frame (entry_confidences results) run
      (d\<lparr>extraction_runs := extraction_runs d @
              [\<lparr>run_id = run, run_model_name = m,
                run_prompt_version = (case pv of None \<Rightarrow> fst (get_pipeline_config e) | Some v \<Rightarrow> Some v),
                run_pipeline_version = (case plv of None \<Rightarrow> snd (get_pipeline_config e) | Some v \<Rightarrow> Some v),
                run_created_at = current_timestamp e\<rparr>]\<rparr>) d'"
    by (simp add: d')
  then show ?thesis
    by (intro exI [of _ "\<lparr>run_id = run, run_model_name = m,
                run_prompt_version = (case pv of None \<Rightarrow> fst (get_pipeline_config e) | Some v \<Rightarrow> Some v),
                run_pipeline_version = (case plv of None \<Rightarrow> snd (get_pipeline_config e) | Some v \<Rightarrow> Some v),
                run_created_at = current_timestamp e\<rparr>"]) simp
qed

lemma write_run_links:
  assumes "write_run e d results m pv plv = Inr (run, d')"
  shows "if results_for iid results = [] then links_of d' iid = links_of d iid
         else links_of d' iid =
                link_rows iid (accumulated d' (res_ingredients (last (results_for iid results))))
              \<and> resolved d' (res_ingredients (last (results_for iid results)))
              \<and> distinct (map link_ingredient_id (links_of d' iid))"
proof -
  from write_run_Inr [OF assms] obtain c' where
      l: "for_each (write_item e run) results
           \<lparr>cur_db = d\<lparr>extraction_runs := extraction_runs d @
              [\<lparr>run_id = run, run_model_name = m,
                run_prompt_version = (case pv of None \<Rightarrow> fst (get_pipeline_config e) | Some v \<Rightarrow> Some v),
                run_pipeline_version = (case plv of None \<Rightarrow> snd (get_pipeline_config e) | Some v \<Rightarrow> Some v),
                run_created_at = current_timestamp e\<rparr>]\<rparr>,
            cur_stmts = Suc 0\<rparr> = Inr c'" and d': "d' = cur_db c'"
    by blast
  have eq: "links_of (d\<lparr>extraction_runs := x\<rparr>) iid = links_of d iid" for x
    by (simp add: links_of_def)
  show ?thesis
  proof (cases "results_for iid results = []")
    case True
    then show ?thesis using write_items_links [OF l, of iid] by (simp add: d' eq)
  next
    case False
    show ?thesis unfolding if_not_P [OF False] d'
      by (rule write_items_links [OF l, of iid, unfolded if_not_P [OF False]])
  qed
qed

text \<open>
  C1. When \<open>write_run\<close> completes, the rows of \<open>menu_item_ingredients\<close> for every
  \<open>item_id\<close> of the batch are exactly the rows built from the accumulator of the last
  result of the batch that carries this \<open>item_id\<close>: one row per accumulated pair of
  ingredient identifier and clamped confidence, the confidence rounded to three decimals,
  in the order of the list. Nothing of an earlier run or of an earlier result for the same
  item is left. Every canonical key of that result has an identifier in the final store.
\<close>

theorem write_run_current_links:
  assumes "write_run e d results m pv plv = Inr (run, d')"
    and "r \<in> set results" and "required_int (res_item_id r) = Inr iid"
  shows "links_of d' iid =
           link_rows iid (accumulated d' (res_ingredients (last (results_for iid results))))
       \<and> resolved d' (res_ingredients (last (results_for iid results)))
       \<and> last (results_for iid results) \<in> set results
       \<and> required_int (res_item_id (last (results_for iid results))) = Inr iid"
proof -
  have ne: "results_for iid results \<noteq> []"
    using assms(2,3) by (auto simp: results_for_def filter_empty_conv)
  then have "last (results_for iid results) \<in> set (results_for iid results)" by simp
  then have "last (results_for iid results) \<in> set results
       \<and> required_int (res_item_id (last (results_for iid results))) = Inr iid"
    by (simp add: results_for_def)
  then show ?thesis using write_run_links [OF assms(1), of iid, unfolded if_not_P [OF ne]] by blast
qed

theorem write_run_current_links_witness:
  "\<exists>run d'.
     write_run \<lparr>config_module = None, current_timestamp = 7, fail_at = None\<rparr> empty_db
       [\<lparr>res_item_id = Some (PyStr ''1''), res_restaurant_id = Some (PyStr ''10''),
         res_item_name = Some ''Pizza'', res_reasoning = Some ''classic'',
         res_ingredients = [\<lparr>ing_name = Some (PyStr ''Tomato''), ing_confidence = Some (PyFloat (Finite (19/20)))\<rparr>]\<rparr>]
       (Some ''gpt-4o'') None None = Inr (run, d')
     \<and> links_of d' 1 =
         [\<lparr>link_item_id = 1, link_ingredient_id = 1, link_confidence = Finite (19/20)\<rparr>]"
proof -
  let ?r = "\<lparr>res_item_id = Some (PyStr ''1''), res_restaurant_id = Some (PyStr ''10''),
         res_item_name = Some ''Pizza'', res_reasoning = Some ''classic'',
         res_ingredients = [\<lparr>ing_name = Some (PyStr ''Tomato''), ing_confidence = Some (PyFloat (Finite (19/20)))\<rparr>]\<rparr>"
  let ?e = "\<lparr>config_module = None, current_timestamp = 7, fail_at = None\<rparr>"
  obtain run d' where w: "write_run ?e empty_db [?r] (Some ''gpt-4o'') None None = Inr (run, d')"
      and i: "sql_select_ingredient_id d' ''tomato'' = Some 1"
    by (simp add: eval_defs py_int.simps parse_int_def split_sign_def digits_val_def digit_val_def is_digit_def)
  have p: "required_int (res_item_id ?r) = Inr 1"
    by (simp add: required_int_def parse_int_def split_sign_def digits_val_def digit_val_def is_digit_def py_strip_def is_space_def)
  have "links_of d' 1 = link_rows 1 (accumulated d' (res_ingredients (last (results_for 1 [?r]))))"
    using write_run_current_links [OF w _ p] by simp
  moreover have "results_for 1 [?r] = [?r]" using p by (simp add: results_for_def)
  moreover have "List.map_filter entry_key (res_ingredients ?r) = [(''tomato'', Finite (19/20))]"
    by (simp add: List.map_filter_simps entry_key_def eval_defs)
  ultimately have "links_of d' 1 =
         [\<lparr>link_item_id = 1, link_ingredient_id = 1, link_confidence = Finite (19/20)\<rparr>]"
    using i by (simp add: link_rows_def accumulated_def round_half_even_def)
  then show ?thesis using w by blast
qed

subsection \<open>Stored confidences (C4)\<close>

lemma clamp01_range: "\<exists>q. clamp01 f = Finite q \<and> 0 \<le> q \<and> q \<le> 1"
  by (cases f) (auto simp: clamp01_def py_min_def py_max_def)

lemma round_half_even_range:
  assumes "0 \<le> x" "x \<le> 1000"
  shows "0 \<le> round_half_even x \<and> round_half_even x \<le> 1000"
proof -
  have f: "0 \<le> \<lfloor>x\<rfloor>" "\<lfloor>x\<rfloor> \<le> 1000" using assms by (simp_all add: floor_le_iff le_floor_iff)
  have "\<lfloor>x\<rfloor> + 1 \<le> 1000" if "1 / 2 \<le> x - of_int \<lfloor>x\<rfloor>"
  proof -
    have "of_int \<lfloor>x\<rfloor> < x" using that by linarith
    then have "of_int \<lfloor>x\<rfloor> < (1000::rat)" using assms(2) by linarith
    then have "\<lfloor>x\<rfloor> < 1000" by (simp add: of_int_less_numeral_iff)
    then show ?thesis by simp
  qed
  then show ?thesis using f unfolding round_half_even_def Let_def by auto
qed

lemma stored_confidence_round_clamp: "stored_confidence_ok (py_round3 (clamp01 f))"
proof -
  obtain q where q: "clamp01 f = Finite q" "0 \<le> q" "q \<le> 1"
    using clamp01_range by blast
  have "0 \<le> q * 1000" "q * 1000 \<le> 1000" using q by simp_all
  then have "0 \<le> round_half_even (q * 1000) \<and> round_half_even (q * 1000) \<le> 1000"
    by (rule round_half_even_range)
  then show ?thesis by (simp add: q)
qed

text \<open>
  C4. Every confidence that \<open>write_run\<close> stores, in a row of
  \<open>menu_item_ingredient_observations\<close> or of \<open>menu_item_ingredients\<close>, is the
  confidence of an entry of the batch, first clamped to the interval from 0 to 1 and then
  rounded to three decimals: a row of the final store is either a row the store already
  held or carries such a value. Such a value lies between 0 and 1 and is a multiple of one
  thousandth. An input of -0.2 is stored as 0.0, an input of 1.7 as 1.0.
\<close>

theorem stored_confidence_clamped_rounded:
  assumes "write_run e d results m pv plv = Inr (run, d')"
  shows "(\<forall>l \<in> set (menu_item_ingredients d').
            l \<in> set (menu_item_ingredients d)
            \<or> (\<exists>f \<in> entry_confidences results. link_confidence l = py_round3 (clamp01 f)))
       \<and> (\<forall>key row. observations d' key = Some row \<longrightarrow>
            observations d key = Some row
            \<or> (\<exists>f \<in> entry_confidences results. obs_confidence row = py_round3 (clamp01 f)))
       \<and> (\<forall>f. stored_confidence_ok (py_round3 (clamp01 f)))
       \<and> py_round3 (clamp01 (Finite (- 2 / 10))) = Finite 0
       \<and> py_round3 (clamp01 (Finite (17 / 10))) = Finite 1"
proof -
  from write_run_frame [OF assms] obtain row where
    "run_frame (entry_confidences results) run (d\<lparr>extraction_runs := extraction_runs d @ [row]\<rparr>) d'"
    by blast
  then have "\<forall>l \<in> set (menu_item_ingredients d').
            l \<in> set (menu_item_ingredients d)
            \<or> (\<exists>f \<in> entry_confidences results. link_confidence l = py_round3 (clamp01 f))"
      and "\<forall>key row. observations d' key = Some row \<longrightarrow>
            observations d key = Some row
            \<or> (\<exists>f \<in> entry_confidences results. obs_confidence row = py_round3 (clamp01 f))"
    by (simp_all add: run_frame_def)
  moreover have "py_round3 (clamp01 (Finite (- 2 / 10))) = Finite 0"
      "py_round3 (clamp01 (Finite (17 / 10))) = Finite 1"
    by (simp_all add: clamp01_def py_min_def py_max_def round_half_even_def)
  ultimately show ?thesis using stored_confidence_round_clamp by blast
qed

theorem stored_confidence_clamped_rounded_witness:
  "\<exists>run d'.
     write_run \<lparr>config_module = None, current_timestamp = 7, fail_at = None\<rparr> empty_db
       [\<lparr>res_item_id = Some (PyInt 1), res_restaurant_id = Some (PyInt 10),
         res_item_name = Some ''Pizza'', res_reasoning = None,
         res_ingredients =
           [\<lparr>ing_name = Some (PyStr ''tomato''), ing_confidence = Some (PyFloat (Finite (- 2 / 10)))\<rparr>,
            \<lparr>ing_name = Some (PyStr ''basil''), ing_confidence = Some (PyFloat (Finite (17 / 10)))\<rparr>]\<rparr>]
       (Some ''gpt-4o'') None None = Inr (run, d')
     \<and> map link_confidence (menu_item_ingredients d') = [Finite 0, Finite 1]
     \<and> (\<forall>l \<in> set (menu_item_ingredients d'). stored_confidence_ok (link_confidence l))"
proof -
  let ?rs = "[\<lparr>res_item_id = Some (PyInt 1), res_restaurant_id = Some (PyInt 10),
         res_item_name = Some ''Pizza'', res_reasoning = None,
         res_ingredients =
           [\<lparr>ing_name = Some (PyStr ''tomato''), ing_confidence = Some (PyFloat (Finite (- 2 / 10)))\<rparr>,
            \<lparr>ing_name = Some (PyStr ''basil''), ing_confidence = Some (PyFloat (Finite (17 / 10)))\<rparr>]\<rparr>]"
  let ?e = "\<lparr>config_module = None, current_timestamp = 7, fail_at = None\<rparr>"
  obtain run d' where w: "write_run ?e empty_db ?rs (Some ''gpt-4o'') None None = Inr (run, d')"
      and v: "map link_confidence (menu_item_ingredients d') = [Finite 0, Finite 1]"
    by (simp add: eval_defs)
  note t = stored_confidence_clamped_rounded [OF w]
  have h: "\<forall>l \<in> set (menu_item_ingredients d'). stored_confidence_ok (link_confidence l)"
  proof
    fix l assume "l \<in> set (menu_item_ingredients d')"
    then have "\<exists>f \<in> entry_confidences ?rs. link_confidence l = py_round3 (clamp01 f)"
      using t by (auto simp: empty_db_def)
    then show "stored_confidence_ok (link_confidence l)" using t by auto
  qed
  show ?thesis by (rule exI [of _ run], rule exI [of _ d'], intro conjI) (rule w, rule v, rule h)
qed

subsection \<open>The restaurant upsert (C8)\<close>

text \<open>
  C8. The restaurant upsert on an existing \<open>restaurant_id\<close> changes only
  \<open>updated_at\<close>: the name and every other restaurant row stay as they are, and no
  other table changes. A \<open>restaurant_id\<close> seen for the first time is inserted with the
  name NULL. Over a whole run of \<open>write_run\<close>, every restaurant of the initial store
  is still there with its name.
\<close>

theorem upsert_restaurant_touches_updated_at:
  "(\<exists>d1. sql_upsert_restaurant rid t d = Inr d1
      \<and> restaurants d1 rid =
          Some (case restaurants d rid of
                  None \<Rightarrow> \<lparr>restaurant_name = None, restaurant_updated_at = t\<rparr>
                | Some r \<Rightarrow> r\<lparr>restaurant_updated_at := t\<rparr>)
      \<and> (\<forall>k. k \<noteq> rid \<longrightarrow> restaurants d1 k = restaurants d k)
      \<and> d1 = d\<lparr>restaurants := restaurants d1\<rparr>)
   \<and> (write_run e d results m pv plv = Inr (run, d') \<longrightarrow>
        (\<forall>k r. restaurants d k = Some r \<longrightarrow>
           (\<exists>r'. restaurants d' k = Some r' \<and> restaurant_name r' = restaurant_name r)))"
proof -
  have "write_run e d results m pv plv = Inr (run, d') \<longrightarrow>
        (\<forall>k r. restaurants d k = Some r \<longrightarrow>
           (\<exists>r'. restaurants d' k = Some r' \<and> restaurant_name r' = restaurant_name r))"
  proof
    assume "write_run e d results m pv plv = Inr (run, d')"
    from write_run_frame [OF this] obtain row where
      "run_frame (entry_confidences results) run (d\<lparr>extraction_runs := extraction_runs d @ [row]\<rparr>) d'"
      by blast
    then show "\<forall>k r. restaurants d k = Some r \<longrightarrow>
           (\<exists>r'. restaurants d' k = Some r' \<and> restaurant_name r' = restaurant_name r)"
      by (simp add: run_frame_def)
  qed
  then show ?thesis by (simp add: sql_upsert_restaurant_def)
qed

theorem upsert_restaurant_touches_updated_at_witness:
  "\<exists>run d'.
     write_run \<lparr>config_module = None, current_timestamp = 7, fail_at = None\<rparr>
       (empty_db\<lparr>restaurants := [10 \<mapsto> \<lparr>restaurant_name = Some ''Luigi'', restaurant_updated_at = 3\<rparr>]\<rparr>)
       [\<lparr>res_item_id = Some (PyInt 1), res_restaurant_id = Some (PyInt 10),
         res_item_name = Some ''Pizza'', res_reasoning = None, res_ingredients = []\<rparr>]
       (Some ''gpt-4o'') None None = Inr (run, d')
     \<and> restaurants d' 10 = Some \<lparr>restaurant_name = Some ''Luigi'', restaurant_updated_at = 7\<rparr>"
proof -
  let ?d = "empty_db\<lparr>restaurants := [10 \<mapsto> \<lparr>restaurant_name = Some ''Luigi'', restaurant_updated_at = 3\<rparr>]\<rparr>"
  let ?rs = "[\<lparr>res_item_id = Some (PyInt 1), res_restaurant_id = Some (PyInt 10),
         res_item_name = Some ''Pizza'', res_reasoning = None, res_ingredients = []\<rparr>]"
  let ?e = "\<lparr>config_module = None, current_timestamp = 7, fail_at = None\<rparr>"
  obtain run d' where w: "write_run ?e ?d ?rs (Some ''gpt-4o'') None None = Inr (run, d')"
    and u: "restaurant_updated_at (the (restaurants d' 10)) = 7"
    by (simp add: eval_defs)
  have h: "restaurants ?d 10 = Some \<lparr>restaurant_name = Some ''Luigi'', restaurant_updated_at = 3\<rparr>"
    by (simp add: empty_db_def)
  from upsert_restaurant_touches_updated_at
         [of 10 7 ?d ?e ?rs "Some ''gpt-4o''" None None run d', THEN conjunct2, rule_format, OF w h]
  obtain r' where "restaurants d' 10 = Some r'" "restaurant_name r' = Some ''Luigi''"
    by auto
  then have r: "restaurants d' 10 = Some \<lparr>restaurant_name = Some ''Luigi'', restaurant_updated_at = 7\<rparr>"
    using u by (cases r') simp
  show ?thesis by (rule exI [of _ run], rule exI [of _ d'], intro conjI) (rule w, rule r)
qed

subsection \<open>The configuration module (C9)\<close>

lemma execute_config: "execute (e\<lparr>config_module := c\<rparr>) = execute e"
  by (intro ext) (simp add: execute_def)

lemma timestamp_config: "current_timestamp (e\<lparr>config_module := c\<rparr>) = current_timestamp e"
  by simp

lemma write_ingredient_config:
  "write_ingredient (e\<lparr>config_module := c\<rparr>) = write_ingredient e"
  unfolding write_ingredient_def execute_config timestamp_config ..

lemma insert_link_config: "insert_link (e\<lparr>config_module := c\<rparr>) = insert_link e"
  unfolding insert_link_def execute_config ..

lemma write_item_config: "write_item (e\<lparr>config_module := c\<rparr>) = write_item e"
  unfolding write_item_def execute_config write_ingredient_config insert_link_config timestamp_config ..

lemma write_run_eq:
  "write_run e d results m pv plv =
     (case execute e
             (sql_insert_run m
                (case pv of None \<Rightarrow> fst (get_pipeline_config e) | Some v \<Rightarrow> Some v)
                (case plv of None \<Rightarrow> snd (get_pipeline_config e) | Some v \<Rightarrow> Some v)
                (current_timestamp e))
             \<lparr>cur_db = d, cur_stmts = 0\<rparr> of
        Inl err \<Rightarrow> Inl err
      | Inr c \<Rightarrow>
          (case for_each (write_item e (lastrowid (cur_db c))) results c of
             Inl err \<Rightarrow> Inl err
           | Inr c' \<Rightarrow> Inr (lastrowid (cur_db c), cur_db c')))"
  by (cases pv; cases plv; cases "get_pipeline_config e")
     (simp_all add: write_run_def Let_def split: sum.splits)

lemma get_pipeline_config_None: "get_pipeline_config (e\<lparr>config_module := None\<rparr>) = (None, None)"
  by (simp add: get_pipeline_config_def)

text \<open>
  C9 (as amended). \<open>write_run\<close> reads the \<open>config\<close> module exactly to fill a
  \<open>prompt_version\<close> or \<open>pipeline_version\<close> that was passed as \<open>None\<close>: a run
  equals the run without a \<open>config\<close> module whose missing version arguments are the
  values of the module. With both versions passed explicitly the result does not depend
  on the \<open>config\<close> module.
\<close>

theorem write_run_config_only_fills_missing_versions:
  "write_run e d results m pv plv =
     write_run (e\<lparr>config_module := None\<rparr>) d results m
       (case pv of None \<Rightarrow> fst (get_pipeline_config e) | Some v \<Rightarrow> Some v)
       (case plv of None \<Rightarrow> snd (get_pipeline_config e) | Some v \<Rightarrow> Some v)
   \<and> (pv \<noteq> None \<and> plv \<noteq> None \<longrightarrow>
        write_run (e\<lparr>config_module := c\<rparr>) d results m pv plv = write_run e d results m pv plv)"
proof
  have "(case (case pv of None \<Rightarrow> fst (get_pipeline_config e) | Some v \<Rightarrow> Some v) of
           None \<Rightarrow> None | Some v \<Rightarrow> Some v) =
        (case pv of None \<Rightarrow> fst (get_pipeline_config e) | Some v \<Rightarrow> Some v)" for pv
    by (simp split: option.splits)
  then show "write_run e d results m pv plv =
     write_run (e\<lparr>config_module := None\<rparr>) d results m
       (case pv of None \<Rightarrow> fst (get_pipeline_config e) | Some v \<Rightarrow> Some v)
       (case plv of None \<Rightarrow> snd (get_pipeline_config e) | Some v \<Rightarrow> Some v)"
    unfolding write_run_eq execute_config write_item_config get_pipeline_config_None timestamp_config
    by (simp split: option.splits)
  show "pv \<noteq> None \<and> plv \<noteq> None \<longrightarrow>
        write_run (e\<lparr>config_module := c\<rparr>) d results m pv plv = write_run e d results m pv plv"
    unfolding write_run_eq execute_config write_item_config timestamp_config
    by (auto split: option.splits)
qed

theorem write_run_config_only_fills_missing_versions_witness:
  "Some ''p1'' \<noteq> None \<and> Some ''v2'' \<noteq> None
   \<and> write_run \<lparr>config_module = Some \<lparr>cfg_prompt_version = Some ''px'', cfg_pipeline_version = Some ''vx''\<rparr>,
                 current_timestamp = 7, fail_at = None\<rparr>
       empty_db [] (Some ''gpt-4o'') (Some ''p1'') (Some ''v2'')
     = write_run \<lparr>config_module = None, current_timestamp = 7, fail_at = None\<rparr>
       empty_db [] (Some ''gpt-4o'') (Some ''p1'') (Some ''v2'')"
  using write_run_config_only_fills_missing_versions
    [of "\<lparr>config_module = None, current_timestamp = 7, fail_at = None\<rparr>" empty_db "[]"
        "Some ''gpt-4o''" "Some ''p1''" "Some ''v2''"
        "Some \<lparr>cfg_prompt_version = Some ''px'', cfg_pipeline_version = Some ''vx''\<rparr>"]
  by simp

text \<open>
  C9 as stated fails: two calls with the same explicit arguments (both versions \<open>None\<close>)
  on the same store write different \<open>extraction_runs\<close> rows when the \<open>config\<close>
  modules differ.
\<close>

theorem write_run_reads_config_counterexample:
  "map run_prompt_version (extraction_runs (snd (projr
     (write_run \<lparr>config_module = Some \<lparr>cfg_prompt_version = Some ''px'', cfg_pipeline_version = None\<rparr>,
                 current_timestamp = 7, fail_at = None\<rparr>
        empty_db [] (Some ''gpt-4o'') None None)))) = [Some ''px'']
   \<and> map run_prompt_version (extraction_runs (snd (projr
     (write_run \<lparr>config_module = None, current_timestamp = 7, fail_at = None\<rparr>
        empty_db [] (Some ''gpt-4o'') None None)))) = [None]"
  by (simp add: eval_defs)

subsection \<open>Runs that raise (C10)\<close>









subsection \<open>Store failures and the transaction (C2)\<close>













subsection \<open>Skipped entries (C7)\<close>






subsection \<open>A duplicate ingredient in one result (C6)\<close>

text \<open>
  C6 (the code at the failing input). One result lists the same canonical ingredient twice,
  with confidences 0.9 and 0.4. The loop over the entries completes: the observation is
  overwritten, the last confidence wins, and the accumulator holds the ingredient twice.
  The snapshot sync then inserts both pairs with a plain \<open>INSERT\<close>; the second one
  meets the key of \<open>menu_item_ingredients\<close> and the run raises.
\<close>

theorem duplicate_ingredient_aborts_run:
  "write_run \<lparr>config_module = None, current_timestamp = 7, fail_at = None\<rparr> empty_db
     [\<lparr>res_item_id = Some (PyInt 1), res_restaurant_id = Some (PyInt 10),
       res_item_name = Some ''Pizza'', res_reasoning = None,
       res_ingredients =
         [\<lparr>ing_name = Some (PyStr ''tomato''), ing_confidence = Some (PyFloat (Finite (9/10)))\<rparr>,
          \<lparr>ing_name = Some (PyStr ''Tomato.''), ing_confidence = Some (PyFloat (Finite (4/10)))\<rparr>]\<rparr>]
     (Some ''gpt-4o'') None None = Inl IntegrityError
   \<and> (\<exists>c. for_each
          (write_ingredient \<lparr>config_module = None, current_timestamp = 7, fail_at = None\<rparr> 1 1)
          [\<lparr>ing_name = Some (PyStr ''tomato''), ing_confidence = Some (PyFloat (Finite (9/10)))\<rparr>,
           \<lparr>ing_name = Some (PyStr ''Tomato.''), ing_confidence = Some (PyFloat (Finite (4/10)))\<rparr>]
          (\<lparr>cur_db = empty_db, cur_stmts = 0\<rparr>, [])
        = Inr (c, [(1, Finite (9/10)), (1, Finite (4/10))])
      \<and> observations (cur_db c) (1, 1, 1) =
          Some \<lparr>obs_confidence = Finite (4/10), obs_created_at = 7\<rparr>)"
  by (simp add: eval_defs)

subsection \<open>Replaying a batch (C3)\<close>

lemma fold_max_ge: "a \<le> fold max xs a \<and> (\<forall>x \<in> set xs. x \<le> fold max xs (a::nat))"
proof (induction xs arbitrary: a)
  case Nil
  then show ?case by simp
next
  case (Cons y ys)
  have "max y a \<le> fold max ys (max y a)" "\<forall>x \<in> set ys. x \<le> fold max ys (max y a)"
    using Cons.IH [of "max y a"] by simp_all
  then show ?case by auto
qed

lemma fresh_id_gt: "i \<in> set ids \<Longrightarrow> i < fresh_id ids"
  using fold_max_ge [of 0 ids] by (auto simp: fresh_id_def less_Suc_eq_le)

lemma accumulated_append:
  "accumulated d (xs @ ys) = accumulated d xs @ accumulated d ys"
  by (simp add: accumulated_def List.map_filter_def)

lemma write_ingredients_obs_rows:
  assumes "for_each (write_ingredient e run iid) ings (c, seen) = Inr (c', seen')"
    and "distinct (map fst (accumulated (cur_db c') ings))"
  shows "\<forall>p \<in> set (accumulated (cur_db c') ings).
           observations (cur_db c') (run, iid, fst p) = Some (obs_row e p)"
  using assms
proof (induction ings arbitrary: c' seen' rule: rev_induct)
  case Nil
  then show ?case by (simp add: accumulated_def List.map_filter_simps)
next
  case (snoc x xs)
  from snoc.prems(1) obtain c1 s1 where
      1: "for_each (write_ingredient e run iid) xs (c, seen) = Inr (c1, s1)"
      and 2: "write_ingredient e run iid x (c1, s1) = Inr (c', seen')"
    by (auto simp: for_each_append split: sum.splits)
  have r1: "\<forall>(k, conf) \<in> set (List.map_filter entry_key xs).
      sql_select_ingredient_id (cur_db c1) k \<noteq> None"
    using write_ingredients_seen [OF 1] by simp
  have fr: "ing_frame (c1, s1) (c', seen')" using 2 by (rule write_ingredient_frame)
  have acc: "accumulated (cur_db c') xs = accumulated (cur_db c1) xs"
    using r1 fr by (intro accumulated_stable) (auto simp: ing_frame_def)
  have d: "distinct (map fst (accumulated (cur_db c1) xs @ accumulated (cur_db c') [x]))"
    using snoc.prems(2) by (simp add: accumulated_append acc)
  then have "distinct (map fst (accumulated (cur_db c1) xs))" by simp
  from snoc.IH [OF 1 this]
  have ih: "\<forall>p \<in> set (accumulated (cur_db c1) xs).
      observations (cur_db c1) (run, iid, fst p) = Some (obs_row e p)" .
  show ?case
  proof (cases "entry_key x")
    case None
    then have "(c', seen') = (c1, s1)" using 2 by (rule write_ingredient_skip)
    then show ?thesis using ih None
      by (simp add: accumulated_append) (simp add: accumulated_def List.map_filter_simps)
  next
    case (Some q)
    obtain k conf where q: "q = (k, conf)" by (cases q)
    from write_ingredient_persist(1) [OF Some [unfolded q] 2] obtain g where
        g: "sql_select_ingredient_id (cur_db c') k = Some g"
        and o: "observations (cur_db c') = (observations (cur_db c1))((run, iid, g) \<mapsto>
           \<lparr>obs_confidence = py_round3 conf, obs_created_at = current_timestamp e\<rparr>)"
      by blast
    have ax: "accumulated (cur_db c') [x] = [(g, conf)]"
      using Some q g by (simp add: accumulated_def List.map_filter_simps)
    have ng: "\<forall>p \<in> set (accumulated (cur_db c1) xs). fst p \<noteq> g"
      using d by (auto simp: ax)
    show ?thesis
    proof
      fix p assume "p \<in> set (accumulated (cur_db c') (xs @ [x]))"
      then consider "p \<in> set (accumulated (cur_db c1) xs)" | "p = (g, conf)"
        by (auto simp: accumulated_append acc ax)
      then show "observations (cur_db c') (run, iid, fst p) = Some (obs_row e p)"
      proof cases
        case 1
        then show ?thesis using ih ng by (simp add: o)
      next
        case 2
        then show ?thesis by (simp add: o obs_row_def)
      qed
    qed
  qed
qed

lemma accumulated_obs_update [simp]:
  "accumulated (d\<lparr>observations := x\<rparr>) ings = accumulated d ings"
  by (simp add: accumulated_def sql_select_ingredient_id_def)

lemma write_item_obs_rows:
  assumes "write_item e run item c = Inr c'"
  shows "\<exists>iid. required_int (res_item_id item) = Inr iid
     \<and> (\<forall>p \<in> set (accumulated (cur_db c') (res_ingredients item)).
           observations (cur_db c') (run, iid, fst p) = Some (obs_row e p))
     \<and> (\<forall>key. fst (snd key) \<noteq> iid \<longrightarrow>
           observations (cur_db c') key = observations (cur_db c) key)"
proof -
  from write_item_Inr [OF assms] obtain iid rid c2 c3 where
      i: "required_int (res_item_id item) = Inr iid"
      and d2: "cur_db c2 = (cur_db c)\<lparr>
         restaurants := (restaurants (cur_db c))(rid \<mapsto>
            (case restaurants (cur_db c) rid of
               None \<Rightarrow> \<lparr>restaurant_name = None, restaurant_updated_at = current_timestamp e\<rparr>
             | Some r \<Rightarrow> r\<lparr>restaurant_updated_at := current_timestamp e\<rparr>)),
         menu_items := (menu_items (cur_db c))(iid \<mapsto>
            \<lparr>item_restaurant_id = rid,
             item_name = (case res_item_name item of None \<Rightarrow> [] | Some n \<Rightarrow> n),
             item_reasoning = res_reasoning item, item_updated_at = current_timestamp e\<rparr>)\<rparr>"
      and l: "for_each (write_ingredient e run iid) (res_ingredients item) (c2, []) =
          Inr (c3, accumulated (cur_db c3) (res_ingredients item))"
      and dist: "distinct (map fst (accumulated (cur_db c3) (res_ingredients item)))"
      and d': "cur_db c' = (cur_db c3)\<lparr>menu_item_ingredients :=
          filter (\<lambda>l. link_item_id l \<noteq> iid) (menu_item_ingredients (cur_db c3))
          @ link_rows iid (accumulated (cur_db c3) (res_ingredients item))\<rparr>"
    by blast
  have o2: "observations (cur_db c2) = observations (cur_db c)" by (simp add: d2)
  have o': "observations (cur_db c') = observations (cur_db c3)" by (simp add: d')
  have a': "accumulated (cur_db c') (res_ingredients item) = accumulated (cur_db c3) (res_ingredients item)"
    by (simp add: d')
  have "\<forall>p \<in> set (accumulated (cur_db c') (res_ingredients item)).
           observations (cur_db c') (run, iid, fst p) = Some (obs_row e p)"
    using write_ingredients_obs_rows [OF l dist] by (simp only: a' o')
  moreover have "\<forall>key. fst (snd key) \<noteq> iid \<longrightarrow>
           observations (cur_db c') key = observations (cur_db c) key"
    using write_ingredients_obs [OF l subset_UNIV] by (simp add: obs_frame_def o2 o')
  ultimately show ?thesis using i by blast
qed

lemma write_items_obs_other:
  assumes "for_each (write_item e run) rest c = Inr c'" and "results_for iid rest = []"
  shows "\<forall>key. fst (snd key) = iid \<longrightarrow> observations (cur_db c') key = observations (cur_db c) key"
  using assms(1)
proof (rule for_each_rel)
  show "\<forall>key. fst (snd key) = iid \<longrightarrow> observations (cur_db b) key = observations (cur_db a) key"
    if "x \<in> set rest" "write_item e run x a = Inr b" for x a b
  proof -
    from write_item_obs_rows [OF that(2)] obtain iid0 where
        i: "required_int (res_item_id x) = Inr iid0"
        and f: "\<forall>key. fst (snd key) \<noteq> iid0 \<longrightarrow> observations (cur_db b) key = observations (cur_db a) key"
      by blast
    have "required_int (res_item_id x) \<noteq> Inr iid"
      using that(1) assms(2) by (auto simp: results_for_def filter_empty_conv)
    then have "iid0 \<noteq> iid" using i by auto
    then show ?thesis using f by auto
  qed
qed simp_all

lemma write_items_obs_rows:
  assumes "for_each (write_item e run) results c = Inr c'" and "results_for iid results \<noteq> []"
  shows "\<forall>p \<in> set (accumulated (cur_db c') (res_ingredients (last (results_for iid results)))).
           observations (cur_db c') (run, iid, fst p) = Some (obs_row e p)"
  using assms
proof (induction results arbitrary: c)
  case Nil
  then show ?case by (simp add: results_for_def)
next
  case (Cons item rest)
  then obtain c1 where 1: "write_item e run item c = Inr c1"
      and 2: "for_each (write_item e run) rest c1 = Inr c'"
    by (auto split: sum.splits)
  show ?case
  proof (cases "results_for iid rest = []")
    case False
    then have "last (results_for iid (item # rest)) = last (results_for iid rest)"
      by (simp add: results_for_def)
    then show ?thesis using Cons.IH [OF 2 False] by simp
  next
    case True
    from write_item_obs_rows [OF 1] obtain iid0 where
        i: "required_int (res_item_id item) = Inr iid0"
        and o: "\<forall>p \<in> set (accumulated (cur_db c1) (res_ingredients item)).
           observations (cur_db c1) (run, iid0, fst p) = Some (obs_row e p)"
      by blast
    have eq: "iid0 = iid" and la: "last (results_for iid (item # rest)) = item"
      using True Cons.prems(2) i by (auto simp: results_for_def split: if_splits)
    from write_item_effect(1) [OF 1 subset_UNIV] have
      "\<forall>(k, conf) \<in> set (List.map_filter entry_key (res_ingredients item)).
           sql_select_ingredient_id (cur_db c1) k \<noteq> None"
      by blast
    moreover have "\<forall>k g. sql_select_ingredient_id (cur_db c1) k = Some g \<longrightarrow>
        sql_select_ingredient_id (cur_db c') k = Some g"
      using write_items_frame [OF 2 subset_UNIV] by (simp add: run_frame_def)
    ultimately have acc: "accumulated (cur_db c') (res_ingredients item) =
        accumulated (cur_db c1) (res_ingredients item)"
      by (intro accumulated_stable) auto
    have "observations (cur_db c') (run, iid, g) = observations (cur_db c1) (run, iid, g)" for g
      using write_items_obs_other [OF 2 True] by simp
    then show ?thesis using o by (simp add: la acc eq)
  qed
qed

lemma write_run_obs_rows:
  assumes "write_run e d results m pv plv = Inr (run, d')" and "results_for iid results \<noteq> []"
  shows "\<forall>l \<in> set (links_of d' iid).
           observations d' (run, iid, link_ingredient_id l) =
             Some \<lparr>obs_confidence = link_confidence l, obs_created_at = current_timestamp e\<rparr>"
proof -
  from write_run_Inr [OF assms(1)] obtain c c' where
      l: "for_each (write_item e run) results c = Inr c'" and d': "d' = cur_db c'"
    by blast
  note o = write_items_obs_rows [OF l assms(2)]
  have "links_of d' iid =
      link_rows iid (accumulated d' (res_ingredients (last (results_for iid results))))"
    using write_run_links [OF assms(1), of iid, unfolded if_not_P [OF assms(2)]] by blast
  then show ?thesis using o by (auto simp: d' link_rows_def obs_row_def)
qed

lemma mset_eq_by_item:
  assumes "\<And>iid. filter (\<lambda>l. link_item_id l = iid) xs = filter (\<lambda>l. link_item_id l = iid) ys"
  shows "mset xs = mset ys"
proof (rule multiset_eqI)
  fix x
  have "count (mset xs) x = count (mset (filter (\<lambda>l. link_item_id l = link_item_id x) xs)) x"
    by simp
  also have "\<dots> = count (mset (filter (\<lambda>l. link_item_id l = link_item_id x) ys)) x"
    by (simp only: assms)
  also have "\<dots> = count (mset ys) x" by simp
  finally show "count (mset xs) x = count (mset ys) x" .
qed

lemma write_run_stable:
  assumes "write_run e d results m pv plv = Inr (run, d')"
  shows "\<exists>row. run_id row = run \<and> extraction_runs d' = extraction_runs d @ [row]"
    and "\<forall>k g. sql_select_ingredient_id d k = Some g \<longrightarrow> sql_select_ingredient_id d' k = Some g"
    and "\<forall>key. fst key \<noteq> run \<longrightarrow> observations d' key = observations d key"
proof -
  from write_run_frame [OF assms] obtain row where r: "run_id row = run"
      and f: "run_frame (entry_confidences results) run (d\<lparr>extraction_runs := extraction_runs d @ [row]\<rparr>) d'"
    by blast
  show "\<exists>row. run_id row = run \<and> extraction_runs d' = extraction_runs d @ [row]"
    using r f by (auto simp: run_frame_def)
  have "sql_select_ingredient_id (d\<lparr>extraction_runs := x\<rparr>) k = sql_select_ingredient_id d k" for x k
    by (simp add: sql_select_ingredient_id_def)
  then show "\<forall>k g. sql_select_ingredient_id d k = Some g \<longrightarrow> sql_select_ingredient_id d' k = Some g"
    using f by (simp add: run_frame_def)
  show "\<forall>key. fst key \<noteq> run \<longrightarrow> observations d' key = observations d key"
    using f by (simp add: run_frame_def)
qed

text \<open>
  C3. Two runs of \<open>write_run\<close> on the same batch, the second on the store the first
  left, get two different run identifiers and append two rows to \<open>extraction_runs\<close>.
  The snapshot after the second run is the snapshot after the first: for every
  \<open>item_id\<close> the rows of \<open>menu_item_ingredients\<close> are the same list, so the table
  holds the same rows. For an item of the batch no ingredient occurs twice in these rows.
  The observations of the first run are untouched by the second, and every snapshot row
  of an item of the batch has its observation, with the same confidence, under each of the
  two run identifiers.
\<close>

theorem replay_keeps_current_links:
  assumes "write_run e1 d0 results m pv plv = Inr (r1, d1)"
    and "write_run e2 d1 results m pv plv = Inr (r2, d2)"
  shows "r1 \<noteq> r2
     \<and> (\<exists>row1 row2. extraction_runs d2 = extraction_runs d0 @ [row1, row2]
           \<and> run_id row1 = r1 \<and> run_id row2 = r2)
     \<and> (\<forall>iid. links_of d2 iid = links_of d1 iid)
     \<and> mset (menu_item_ingredients d2) = mset (menu_item_ingredients d1)
     \<and> (\<forall>iid. results_for iid results \<noteq> [] \<longrightarrow>
           distinct (map link_ingredient_id (links_of d2 iid)))
     \<and> (\<forall>key. fst key = r1 \<longrightarrow> observations d2 key = observations d1 key)
     \<and> (\<forall>iid. results_for iid results \<noteq> [] \<longrightarrow>
           (\<forall>l \<in> set (links_of d2 iid).
              observations d2 (r1, iid, link_ingredient_id l) =
                Some \<lparr>obs_confidence = link_confidence l, obs_created_at = current_timestamp e1\<rparr>
            \<and> observations d2 (r2, iid, link_ingredient_id l) =
                Some \<lparr>obs_confidence = link_confidence l, obs_created_at = current_timestamp e2\<rparr>))"
proof -
  from write_run_stable(1) [OF assms(1)] obtain row1 where
      row1: "run_id row1 = r1" "extraction_runs d1 = extraction_runs d0 @ [row1]"
    by blast
  from write_run_stable(1) [OF assms(2)] obtain row2 where
      row2: "run_id row2 = r2" "extraction_runs d2 = extraction_runs d1 @ [row2]"
    by blast
  have "r2 = fresh_id (map run_id (extraction_runs d1))"
    using write_run_Inr [OF assms(2)] by blast
  moreover have "r1 \<in> set (map run_id (extraction_runs d1))"
    using row1 by simp
  ultimately have "r1 < r2" using fresh_id_gt by blast
  then have ne: "r1 \<noteq> r2" by simp
  have rows: "\<exists>row1 row2. extraction_runs d2 = extraction_runs d0 @ [row1, row2]
           \<and> run_id row1 = r1 \<and> run_id row2 = r2"
    using row1 row2 by simp
  have links: "links_of d2 iid = links_of d1 iid" for iid
  proof (cases "results_for iid results = []")
    case True
    then show ?thesis using write_run_links [OF assms(2), of iid] by simp
  next
    case False
    let ?ings = "res_ingredients (last (results_for iid results))"
    note a = write_run_links [OF assms(1), of iid, unfolded if_not_P [OF False]]
    note b = write_run_links [OF assms(2), of iid, unfolded if_not_P [OF False]]
    have "accumulated d2 ?ings = accumulated d1 ?ings"
      using a write_run_stable(2) [OF assms(2)] by (intro resolved_stable(2)) auto
    then show ?thesis using a b by simp
  qed
  have ms: "mset (menu_item_ingredients d2) = mset (menu_item_ingredients d1)"
    using links by (intro mset_eq_by_item) (simp add: links_of_def)
  have dist: "\<forall>iid. results_for iid results \<noteq> [] \<longrightarrow>
           distinct (map link_ingredient_id (links_of d2 iid))"
  proof (intro allI impI)
    fix iid assume n: "results_for iid results \<noteq> []"
    show "distinct (map link_ingredient_id (links_of d2 iid))"
      using write_run_links [OF assms(2), of iid, unfolded if_not_P [OF n]] by blast
  qed
  have keep: "\<forall>key. fst key = r1 \<longrightarrow> observations d2 key = observations d1 key"
    using write_run_stable(3) [OF assms(2)] ne by auto
  have obs: "\<forall>iid. results_for iid results \<noteq> [] \<longrightarrow>
           (\<forall>l \<in> set (links_of d2 iid).
              observations d2 (r1, iid, link_ingredient_id l) =
                Some \<lparr>obs_confidence = link_confidence l, obs_created_at = current_timestamp e1\<rparr>
            \<and> observations d2 (r2, iid, link_ingredient_id l) =
                Some \<lparr>obs_confidence = link_confidence l, obs_created_at = current_timestamp e2\<rparr>)"
  proof (intro allI impI ballI)
    fix iid l assume n: "results_for iid results \<noteq> []" and l: "l \<in> set (links_of d2 iid)"
    have "observations d1 (r1, iid, link_ingredient_id l) =
        Some \<lparr>obs_confidence = link_confidence l, obs_created_at = current_timestamp e1\<rparr>"
      using write_run_obs_rows [OF assms(1) n] l links by simp
    moreover have "observations d2 (r1, iid, link_ingredient_id l) =
        observations d1 (r1, iid, link_ingredient_id l)"
      using keep by simp
    moreover have "observations d2 (r2, iid, link_ingredient_id l) =
        Some \<lparr>obs_confidence = link_confidence l, obs_created_at = current_timestamp e2\<rparr>"
      using write_run_obs_rows [OF assms(2) n] l by simp
    ultimately show "observations d2 (r1, iid, link_ingredient_id l) =
                Some \<lparr>obs_confidence = link_confidence l, obs_created_at = current_timestamp e1\<rparr>
            \<and> observations d2 (r2, iid, link_ingredient_id l) =
                Some \<lparr>obs_confidence = link_confidence l, obs_created_at = current_timestamp e2\<rparr>"
      by simp
  qed
  show ?thesis using ne rows links ms dist keep obs by blast
qed

theorem replay_keeps_current_links_witness:
  "\<exists>r1 d1 r2 d2.
     write_run \<lparr>config_module = None, current_timestamp = 7, fail_at = None\<rparr> empty_db
       [\<lparr>res_item_id = Some (PyInt 1), res_restaurant_id = Some (PyInt 10),
         res_item_name = Some ''Pizza'', res_reasoning = None,
         res_ingredients =
           [\<lparr>ing_name = Some (PyStr ''tomato''), ing_confidence = Some (PyFloat (Finite (19/20)))\<rparr>,
            \<lparr>ing_name = Some (PyStr ''basil.''), ing_confidence = Some (PyFloat (Finite (4/5)))\<rparr>]\<rparr>]
       (Some ''gpt-4o'') None None = Inr (r1, d1)
     \<and> write_run \<lparr>config_module = None, current_timestamp = 9, fail_at = None\<rparr> d1
       [\<lparr>res_item_id = Some (PyInt 1), res_restaurant_id = Some (PyInt 10),
         res_item_name = Some ''Pizza'', res_reasoning = None,
         res_ingredients =
           [\<lparr>ing_name = Some (PyStr ''tomato''), ing_confidence = Some (PyFloat (Finite (19/20)))\<rparr>,
            \<lparr>ing_name = Some (PyStr ''basil.''), ing_confidence = Some (PyFloat (Finite (4/5)))\<rparr>]\<rparr>]
       (Some ''gpt-4o'') None None = Inr (r2, d2)
     \<and> r1 \<noteq> r2 \<and> length (extraction_runs d2) = 2
     \<and> menu_item_ingredients d1 =
         [\<lparr>link_item_id = 1, link_ingredient_id = 1, link_confidence = Finite (19/20)\<rparr>,
          \<lparr>link_item_id = 1, link_ingredient_id = 2, link_confidence = Finite (4/5)\<rparr>]
     \<and> mset (menu_item_ingredients d2) = mset (menu_item_ingredients d1)"
proof -
  let ?rs = "[\<lparr>res_item_id = Some (PyInt 1), res_restaurant_id = Some (PyInt 10),
         res_item_name = Some ''Pizza'', res_reasoning = None,
         res_ingredients =
           [\<lparr>ing_name = Some (PyStr ''tomato''), ing_confidence = Some (PyFloat (Finite (19/20)))\<rparr>,
            \<lparr>ing_name = Some (PyStr ''basil.''), ing_confidence = Some (PyFloat (Finite (4/5)))\<rparr>]\<rparr>]"
  let ?e1 = "\<lparr>config_module = None, current_timestamp = 7, fail_at = None\<rparr>"
  let ?e2 = "\<lparr>config_module = None, current_timestamp = 9, fail_at = None\<rparr>"
  obtain r1 d1 where w1: "write_run ?e1 empty_db ?rs (Some ''gpt-4o'') None None = Inr (r1, d1)"
      and l1: "menu_item_ingredients d1 =
         [\<lparr>link_item_id = 1, link_ingredient_id = 1, link_confidence = Finite (19/20)\<rparr>,
          \<lparr>link_item_id = 1, link_ingredient_id = 2, link_confidence = Finite (4/5)\<rparr>]"
      and d1: "d1 = snd (projr (write_run ?e1 empty_db ?rs (Some ''gpt-4o'') None None))"
    by (simp add: eval_defs)
  obtain r2 d2 where w2: "write_run ?e2 d1 ?rs (Some ''gpt-4o'') None None = Inr (r2, d2)"
    unfolding d1 by (simp add: eval_defs)
  note t = replay_keeps_current_links [OF w1 w2]
  have n: "r1 \<noteq> r2" using t by blast
  have "extraction_runs empty_db = []" by (simp add: empty_db_def)
  then have len: "length (extraction_runs d2) = 2" using t by auto
  have ms: "mset (menu_item_ingredients d2) = mset (menu_item_ingredients d1)" using t by blast
  show ?thesis
    by (rule exI [of _ r1], rule exI [of _ d1], rule exI [of _ r2], rule exI [of _ d2], intro conjI)
       (rule w1, rule w2, rule n, rule len, rule l1, rule ms)
qed

end
